theory Spec2Isabelle
  imports Main "HOL-Library.Word" "HOL-Library.AList"
begin

unbundle bit_operations_syntax

section \<open>The stack server of \<^verbatim>\<open>server.js\<close>\<close>

text \<open>
  The server is a single-threaded Node program: a handful of global variables, one closure
  per accepted connection, and handlers that the event loop runs one at a time, each to
  completion. The embedding follows that shape. The global variables and the sockets form
  a record \<open>world\<close>; the variables captured by a connection's closure form a record
  \<open>session\<close>; every handler is a function from the world before to the world after; the
  event loop is a function \<open>step\<close> from an event and a world to a world.

  Three things the program gets from its runtime (Node v10.13.0, says the README) are
  part of the model, each described where it is defined: the decoder that
  \<^verbatim>\<open>client.setEncoding(null)\<close> puts between the socket and the data handler, the sort of
  \<^verbatim>\<open>Array.prototype.sort\<close>, and the moment the callback of \<^verbatim>\<open>getConnections\<close> runs.

  Logging is left out throughout: it reads the state and changes none of it.
\<close>

subsection \<open>Data\<close>

type_synonym byte = "8 word"
type_synonym buffer = "byte list"
type_synonym uuid = string

text \<open>The closure variable \<^verbatim>\<open>state\<close> holds one of five strings.\<close>

datatype phase = Start | Pop | Push | Done | Disconnect

text \<open>
  The variables declared at the top of the connection listener (lines 127 to 131), captured
  by all the handlers of one connection; \<open>start_session\<close> holds their initial values.
\<close>

record session =
  state :: phase
  payloadBytesRead :: int
  payloadLength :: nat
  payloadList :: "buffer list"
  exitLoop :: bool

definition start_session :: session where
  "start_session =
     \<lparr>state = Start, payloadBytesRead = 0, payloadLength = 0, payloadList = [],
      exitLoop = False\<rparr>"

text \<open>
  One entry of \<^verbatim>\<open>gClients\<close> (lines 166 to 171). The field \<open>client\<close> is the socket
  object; a socket is named here by the identifier of the connection it belongs to.
\<close>

record clientRecord =
  timestamp :: int
  client :: uuid
  counter :: nat
  disconnect :: bool

text \<open>
  What the program can observe or cause on a socket: the bytes written to the peer so
  far, and whether the writable side has been ended. \<^verbatim>\<open>client.end(data)\<close> writes the data
  and ends the socket. On a socket that is ended already nothing more is written; Node
  reports the late write through the socket's \<^verbatim>\<open>'error'\<close> event, which is an event of the
  environment below.
\<close>

record socket =
  sent :: "byte list"
  ended :: bool

text \<open>
  A pending \<^verbatim>\<open>setTimeout(checkStackEmpty, 1)\<close> or \<^verbatim>\<open>setTimeout(checkStackFull, 1)\<close>: the
  connection whose closure it belongs to and, for a push, the captured
  \<^verbatim>\<open>combinedPayload\<close>.
\<close>

datatype waiter = CheckStackEmpty uuid | CheckStackFull uuid buffer

text \<open>
  The state of a socket's string decoder: the bytes of a character that is not complete
  yet and the number of bytes still missing from it.
\<close>

type_synonym decoder = "byte list \<times> nat"

text \<open>
  \<^verbatim>\<open>gClients\<close> is a JavaScript object used as a dictionary; \<^verbatim>\<open>Object.keys\<close> lists its
  keys in insertion order (the keys are UUID strings, never integer-like), so it is an
  association list. \<open>decoders\<close> holds, for a socket on which \<^verbatim>\<open>setEncoding\<close> has been
  called, the state of its decoder. \<open>listening\<close> is the state of \<^verbatim>\<open>appServer\<close>: true until
  \<^verbatim>\<open>appServer.close()\<close>.
\<close>

record world =
  gKillMe :: bool
  gLIFO :: "buffer list"
  gClients :: "(uuid \<times> clientRecord) list"
  gConnectionsMade :: nat
  sessions :: "uuid \<rightharpoonup> session"
  sockets :: "uuid \<Rightarrow> socket"
  decoders :: "uuid \<Rightarrow> decoder option"
  timers :: "waiter list"
  listening :: bool

text \<open>
  \<^verbatim>\<open>config.json\<close> is not part of the sources; the three values the server reads from it
  are parameters. The two limits are natural numbers, and so is the stale period: a whole
  number of seconds.
\<close>

record config =
  maxConnections :: nat
  maxStackSize :: nat
  staleConnectionPeriodSeconds :: nat

text \<open>The only exception the handlers can raise: a property read on \<^verbatim>\<open>undefined\<close>.\<close>

datatype error = TypeError

definition init_world :: world where
  "init_world =
     \<lparr>gKillMe = False, gLIFO = [], gClients = [], gConnectionsMade = 0,
      sessions = Map.empty, sockets = (\<lambda>_. \<lparr>sent = [], ended = False\<rparr>),
      decoders = (\<lambda>_. None), timers = [], listening = True\<rparr>"

subsection \<open>Sockets and buffers\<close>

definition socket_end :: "byte list \<Rightarrow> socket \<Rightarrow> socket" where
  "socket_end data sk =
     (if ended sk then sk else \<lparr>sent = sent sk @ data, ended = True\<rparr>)"

text \<open>\<^verbatim>\<open>client.end(data)\<close> on the socket of connection \<open>u\<close>; \<^verbatim>\<open>client.end()\<close> is the case of no data.\<close>

definition client_end :: "uuid \<Rightarrow> byte list \<Rightarrow> world \<Rightarrow> world" where
  "client_end u data w = w\<lparr>sockets := (sockets w)(u := socket_end data (sockets w u))\<rparr>"

text \<open>
  \<^verbatim>\<open>buffer[0] & m\<close>. On an empty buffer \<^verbatim>\<open>buffer[0]\<close> is \<^verbatim>\<open>undefined\<close>, which \<^verbatim>\<open>&\<close>
  converts to 0.
\<close>

definition byte0_and :: "buffer \<Rightarrow> byte \<Rightarrow> byte" where
  "byte0_and buffer m = (case buffer of [] \<Rightarrow> 0 | b # _ \<Rightarrow> b AND m)"

text \<open>
  The response to a pop (lines 205 to 209): a buffer of \<^verbatim>\<open>length + 1\<close> bytes, the first one
  \<^verbatim>\<open>payload.length & 0x7F\<close>, the payload copied from index 1 on.
\<close>

definition sendBuffer :: "buffer \<Rightarrow> buffer" where
  "sendBuffer payload = word_of_nat (length payload AND 0x7F) # payload"

subsection \<open>What the data handler is given\<close>

text \<open>
  \<^verbatim>\<open>client.setEncoding(null)\<close> (line 134) does not switch decoding off: \<^verbatim>\<open>setEncoding\<close>
  always installs a \<^verbatim>\<open>StringDecoder\<close>, and no encoding means UTF-8. From then on the
  \<^verbatim>\<open>'data'\<close> event carries a string, the bytes received decoded as UTF-8, and
  \<^verbatim>\<open>Buffer.from(data)\<close> (line 177) encodes that string as UTF-8 again. What the handler works
  on is therefore not the bytes received but their passage through decoder and encoder.

  \<open>utf8\<close> is that passage for one array of bytes: decoding as the Encoding Standard
  prescribes (and V8 does), with the character U+FFFD for every ill-formed part, followed
  by encoding. A well-formed sequence comes out as it went in; every maximal ill-formed
  part, and a sequence cut short by the end of the array, comes out as \<^verbatim>\<open>EF BF BD\<close>. The
  arguments of \<open>utf8_from\<close> are the bytes of the sequence under way, the number of bytes it
  still needs, and the bounds on the next byte.
\<close>

definition replacement :: "byte list" where
  "replacement = [0xEF, 0xBF, 0xBD]"

fun utf8_from :: "byte list \<Rightarrow> nat \<Rightarrow> byte \<Rightarrow> byte \<Rightarrow> byte list \<Rightarrow> byte list" where
  "utf8_from seen needed lower upper [] = (if needed = 0 then [] else replacement)"
| "utf8_from seen needed lower upper (b # bs) =
     (if needed = 0 then
        (if b \<le> 0x7F then b # utf8_from [] 0 0x80 0xBF bs
         else if 0xC2 \<le> b \<and> b \<le> 0xDF then utf8_from [b] 1 0x80 0xBF bs
         else if 0xE0 \<le> b \<and> b \<le> 0xEF then
           utf8_from [b] 2 (if b = 0xE0 then 0xA0 else 0x80) (if b = 0xED then 0x9F else 0xBF) bs
         else if 0xF0 \<le> b \<and> b \<le> 0xF4 then
           utf8_from [b] 3 (if b = 0xF0 then 0x90 else 0x80) (if b = 0xF4 then 0x8F else 0xBF) bs
         else replacement @ utf8_from [] 0 0x80 0xBF bs)
      else if lower \<le> b \<and> b \<le> upper then
        (if needed = 1 then seen @ b # utf8_from [] 0 0x80 0xBF bs
         else utf8_from (seen @ [b]) (needed - 1) 0x80 0xBF bs)
      else replacement @ utf8_from [] 0 0x80 0xBF (b # bs))"

definition utf8 :: "byte list \<Rightarrow> byte list" where
  "utf8 bytes = utf8_from [] 0 0x80 0xBF bytes"

text \<open>
  The decoder works on the deliveries one at a time (\<^verbatim>\<open>StringDecoder::DecodeData\<close> in Node's
  \<^verbatim>\<open>string_decoder.cc\<close>). When a delivery ends inside a character, the bytes of that
  character are kept back. \<open>incomplete_tail\<close> finds them as the decoder does: it walks
  back from the end over at most three continuation bytes to a lead byte and reads from
  the lead byte's upper bits how long the character should be. The result is the number
  of bytes to keep back and the number of bytes missing.
\<close>

definition continuation :: "byte \<Rightarrow> bool" where
  "continuation b = (b AND 0xC0 = 0x80)"

definition lead_length :: "byte \<Rightarrow> nat" where
  "lead_length b =
     (if b AND 0xE0 = 0xC0 then 2 else if b AND 0xF0 = 0xE0 then 3
      else if b AND 0xF8 = 0xF0 then 4 else 0)"

fun walk_back :: "nat \<Rightarrow> byte list \<Rightarrow> nat \<times> nat" where
  "walk_back buffered [] = (0, 0)"
| "walk_back buffered (b # earlier) =
     (if continuation b then
        (if Suc buffered \<ge> 4 \<or> earlier = [] then (0, 0) else walk_back (Suc buffered) earlier)
      else if Suc buffered \<ge> lead_length b then (0, 0)
      else (Suc buffered, lead_length b - Suc buffered))"

definition incomplete_tail :: "byte list \<Rightarrow> nat \<times> nat" where
  "incomplete_tail data =
     (if data \<noteq> [] \<and> last data AND 0x80 \<noteq> 0 then walk_back 0 (rev data) else (0, 0))"

text \<open>
  \<^verbatim>\<open>decoder.write\<close>. If a character is under way, the delivery's first bytes are taken to
  complete it, up to the first byte that is not a continuation byte; once nothing is
  missing the character is decoded by itself. The rest of the delivery is decoded without
  its incomplete tail. The result is what \<^verbatim>\<open>Buffer.from\<close> makes of the decoded string, and
  the new state of the decoder.
\<close>

definition decoder_write :: "decoder \<Rightarrow> byte list \<Rightarrow> byte list \<times> decoder" where
  "decoder_write d data =
     (let lastChar = fst d; missing = snd d;
          stop = length (takeWhile continuation (take missing data));
          broken = (stop < min missing (length data));
          found = (if broken then stop else min missing (length data));
          lastChar1 = lastChar @ take found data;
          missing1 = (if broken then 0 else missing - found);
          data1 = drop found data;
          prepend = (if 0 < missing \<and> missing1 = 0 then utf8 lastChar1 else []);
          lastChar2 = (if missing1 = 0 then [] else lastChar1)
      in if data1 = [] then (prepend, (lastChar2, missing1))
         else (let keep = fst (incomplete_tail data1);
                   body = utf8 (take (length data1 - keep) data1)
               in (prepend @ body,
                   (drop (length data1 - keep) data1, snd (incomplete_tail data1)))))"

text \<open>\<^verbatim>\<open>decoder.end\<close>, called when the peer has ended the stream: what is kept back is decoded.\<close>

definition decoder_end :: "decoder \<Rightarrow> byte list" where
  "decoder_end d = utf8 (fst d)"

subsection \<open>The blocking stack operations\<close>

text \<open>
  \<^verbatim>\<open>checkStackEmpty\<close> (lines 193 to 220) and \<^verbatim>\<open>checkStackFull\<close> (lines 267 to 283). Each
  call either gives up (halt flag or \<^verbatim>\<open>exitLoop\<close>), completes, or re-arms itself with
  \<^verbatim>\<open>setTimeout\<close>. \<^verbatim>\<open>gLIFO.push\<close> appends at the end of the array and \<^verbatim>\<open>gLIFO.pop\<close> removes
  the last element.
\<close>

definition checkStackEmpty :: "uuid \<Rightarrow> session \<Rightarrow> world \<Rightarrow> world" where
  "checkStackEmpty me s w =
     (if gKillMe w \<or> exitLoop s then w
      else if gLIFO w \<noteq> [] then
        (let payload = last (gLIFO w)
         in client_end me (sendBuffer payload) (w\<lparr>gLIFO := butlast (gLIFO w)\<rparr>))
      else w\<lparr>timers := timers w @ [CheckStackEmpty me]\<rparr>)"

definition checkStackFull :: "config \<Rightarrow> uuid \<Rightarrow> buffer \<Rightarrow> session \<Rightarrow> world \<Rightarrow> world" where
  "checkStackFull cfg me combinedPayload s w =
     (if gKillMe w \<or> exitLoop s then w
      else if length (gLIFO w) < maxStackSize cfg then
        client_end me [0] (w\<lparr>gLIFO := gLIFO w @ [combinedPayload]\<rparr>)
      else w\<lparr>timers := timers w @ [CheckStackFull me combinedPayload]\<rparr>)"

subsection \<open>The data handler\<close>

text \<open>
  The chain of branches of lines 187 to 256, on the closure variables only. The pop branch
  is the first one; it is taken by \<open>onData\<close> below, which also calls \<^verbatim>\<open>checkStackEmpty\<close>.
  \<^verbatim>\<open>buffer.slice(1, payloadLength+1)\<close> clamps at the end of the buffer.
\<close>

definition accumulate :: "buffer \<Rightarrow> session \<Rightarrow> session" where
  "accumulate buffer s =
     (if state s = Push then
        (let s1 = s\<lparr>payloadList := payloadList s @ [buffer],
                    payloadBytesRead := payloadBytesRead s + int (length buffer)\<rparr>
         in if payloadBytesRead s1 \<ge> int (payloadLength s1) then s1\<lparr>state := Done\<rparr> else s1)
      else if state s = Start then
        (let len = unat (byte0_and buffer 0x7F);
             s1 = s\<lparr>state := Push, payloadLength := len,
                    payloadList := payloadList s @ [take len (drop 1 buffer)],
                    payloadBytesRead := int (length buffer) - 1\<rparr>
         in if payloadBytesRead s1 \<ge> int (payloadLength s1) then s1\<lparr>state := Done\<rparr> else s1)
      else s)"

text \<open>
  The handler of \<^verbatim>\<open>'data'\<close> (lines 175 to 287). Its first access,
  \<^verbatim>\<open>gClients[myUUID].disconnect\<close>, throws when the record is gone. The result is the
  updated closure and world.
\<close>

definition onData :: "config \<Rightarrow> uuid \<Rightarrow> buffer \<Rightarrow> session \<Rightarrow> world \<Rightarrow> error + session \<times> world" where
  "onData cfg me buffer s w =
     (case map_of (gClients w) me of
        None \<Rightarrow> Inl TypeError
      | Some r \<Rightarrow>
          (let s1 = (if disconnect r then s\<lparr>state := Disconnect\<rparr> else s)
           in if state s1 = Start \<and> byte0_and buffer 0x80 \<noteq> 0 then
                (let s2 = s1\<lparr>state := Pop\<rparr> in Inr (s2, checkStackEmpty me s2 w))
              else
                (let s2 = accumulate buffer s1
                 in if state s2 = Done
                    then Inr (s2, checkStackFull cfg me (concat (payloadList s2)) s2 w)
                    else Inr (s2, w))))"

text \<open>The handlers of \<^verbatim>\<open>'end'\<close>, \<^verbatim>\<open>'timeout'\<close> and \<^verbatim>\<open>'error'\<close> have the same body.\<close>

definition onClose :: "uuid \<Rightarrow> session \<Rightarrow> world \<Rightarrow> session \<times> world" where
  "onClose me s w = (s\<lparr>exitLoop := True\<rparr>, w\<lparr>gClients := AList.delete me (gClients w)\<rparr>)"

subsection \<open>Admission\<close>

text \<open>
  \<^verbatim>\<open>disconnectOldClient\<close> (lines 82 to 104). The keys are sorted by the timestamps of their
  records and the first one is taken: a key whose record has the least timestamp. When
  several records share the least timestamp, which of them the sort puts first is up to
  the runtime (the one inserted first where the sort is stable, as ECMAScript requires
  since 2019; V8 before version 7 sorts more than ten elements with a quicksort that is
  not). That choice is the argument \<open>pick\<close>, an index into the records with the least
  timestamp. On an empty registry \<^verbatim>\<open>sorted[0]\<close> is \<^verbatim>\<open>undefined\<close> and reading
  \<^verbatim>\<open>gClients[undefined].timestamp\<close> throws.

  The timestamps are whole milliseconds and the stale period a whole number of seconds;
  for these (below \<open>2\<^sup>5\<^sup>3\<close> and \<open>2\<^sup>4\<^sup>2\<close>) the double-precision test
  \<^verbatim>\<open>(now - earliestDate) / 1000 > staleConnectionPeriodSeconds\<close> holds exactly when the
  elapsed milliseconds exceed a thousand times the period. The result is the pair of
  \<^verbatim>\<open>result.disconnect\<close> and \<^verbatim>\<open>result.uuid\<close>.
\<close>

definition oldest_records :: "(uuid \<times> clientRecord) list \<Rightarrow> (uuid \<times> clientRecord) list" where
  "oldest_records g =
     filter (\<lambda>kr. timestamp (snd kr) = Min (set (map (\<lambda>kr. timestamp (snd kr)) g))) g"

definition disconnectOldClient ::
  "config \<Rightarrow> int \<Rightarrow> nat \<Rightarrow> (uuid \<times> clientRecord) list \<Rightarrow> error + bool \<times> uuid" where
  "disconnectOldClient cfg now pick g =
     (case oldest_records g of
        [] \<Rightarrow> Inl TypeError
      | first # others \<Rightarrow>
          (let earliestUUID = fst ((first # others) ! (pick mod length (first # others)));
               earliestDate = timestamp (snd ((first # others) ! (pick mod length (first # others))));
               elapsedMilliseconds = now - earliestDate
           in if elapsedMilliseconds > 1000 * int (staleConnectionPeriodSeconds cfg)
              then Inr (True, earliestUUID) else Inr (False, [])))"

text \<open>
  The synchronous part of the connection listener (lines 119 to 172): count the
  connection, initialise the closure variables, call \<^verbatim>\<open>setEncoding\<close>, insert the record.
  The socket is a new object, and its decoder starts with nothing kept back.
\<close>

definition connectionListener :: "uuid \<Rightarrow> int \<Rightarrow> world \<Rightarrow> world" where
  "connectionListener myUUID now w =
     w\<lparr>gConnectionsMade := gConnectionsMade w + 1,
       gClients := AList.update myUUID
          \<lparr>timestamp = now, client = myUUID, counter = gConnectionsMade w + 1,
           disconnect = False\<rparr> (gClients w),
       sessions := (sessions w)(myUUID \<mapsto> start_session),
       sockets := (sockets w)(myUUID := \<lparr>sent = [], ended = False\<rparr>),
       decoders := (decoders w)(myUUID \<mapsto> ([], 0))\<rparr>"

text \<open>
  The callback passed to \<^verbatim>\<open>appServer.getConnections\<close> (lines 137 to 159). \<open>connections\<close>
  is the count the server reports, \<open>now\<close> the clock read inside \<^verbatim>\<open>disconnectOldClient\<close>
  and \<open>pick\<close> the choice of its sort; all three come from the environment.
\<close>

definition getConnectionsCallback ::
  "config \<Rightarrow> uuid \<Rightarrow> nat \<Rightarrow> int \<Rightarrow> nat \<Rightarrow> session \<Rightarrow> world \<Rightarrow> error + session \<times> world" where
  "getConnectionsCallback cfg me connections now pick s w =
     (if connections > maxConnections cfg then
        (case disconnectOldClient cfg now pick (gClients w) of
           Inl e \<Rightarrow> Inl e
         | Inr (dis, old) \<Rightarrow>
             if dis then
               (case map_of (gClients w) old of
                  None \<Rightarrow> Inl TypeError
                | Some r \<Rightarrow>
                    Inr (s, (client_end (client r) [] w)
                              \<lparr>gClients := AList.update old (r\<lparr>disconnect := True\<rparr>) (gClients w)\<rparr>))
             else Inr (s\<lparr>state := Disconnect\<rparr>, client_end me [0xFF] w))
      else Inr (s, w))"

subsection \<open>The event loop\<close>

text \<open>
  \<^verbatim>\<open>shutdown\<close> (lines 408 to 424) sets the halt flag and closes the listeners. It is the
  handler of SIGINT and SIGTERM and also of \<^verbatim>\<open>'uncaughtException'\<close>, so an exception thrown
  by any handler ends there.
\<close>

definition shutdown :: "world \<Rightarrow> world" where
  "shutdown w = w\<lparr>gKillMe := True, listening := False\<rparr>"

text \<open>
  The events the environment delivers. A connection comes with the clock at accept, the
  count \<^verbatim>\<open>getConnections\<close> will report, the clock at that moment and the choice of the
  sort: Node calls the callback of \<^verbatim>\<open>getConnections\<close> from \<^verbatim>\<open>process.nextTick\<close>, that is
  after the listener has returned and before any other event is handled. \<open>Data\<close> carries
  the bytes a delivery brings from the peer. \<open>Timer i\<close> fires the \<open>i\<close>-th pending timeout.
  An event for a connection that was never accepted has no handler.
\<close>

datatype event =
    Connection uuid int nat int nat
  | Data uuid "byte list"
  | End uuid
  | Timeout uuid
  | Error uuid
  | Timer nat
  | Signal

definition store :: "uuid \<Rightarrow> session \<times> world \<Rightarrow> world" where
  "store me sw = (snd sw)\<lparr>sessions := (sessions (snd sw))(me \<mapsto> fst sw)\<rparr>"

definition fire :: "config \<Rightarrow> waiter \<Rightarrow> world \<Rightarrow> world" where
  "fire cfg t w =
     (case t of
        CheckStackEmpty u \<Rightarrow>
          (case sessions w u of None \<Rightarrow> w | Some s \<Rightarrow> checkStackEmpty u s w)
      | CheckStackFull u p \<Rightarrow>
          (case sessions w u of None \<Rightarrow> w | Some s \<Rightarrow> checkStackFull cfg u p s w))"

text \<open>
  The emission of \<^verbatim>\<open>'data'\<close> with a buffer: the handler runs on the closure of the
  connection, and what it throws goes to \<^verbatim>\<open>shutdown\<close>.
\<close>

definition deliver :: "config \<Rightarrow> uuid \<Rightarrow> buffer \<Rightarrow> world \<Rightarrow> world" where
  "deliver cfg me buffer w =
     (case sessions w me of
        None \<Rightarrow> w
      | Some s \<Rightarrow>
          (case onData cfg me buffer s w of
             Inl e \<Rightarrow> shutdown w
           | Inr sw \<Rightarrow> store me sw))"

text \<open>
  The arrival of bytes on a socket (\<^verbatim>\<open>readableAddChunk\<close> in Node's stream library): they
  go through the decoder, and \<^verbatim>\<open>'data'\<close> is emitted unless the decoded string is empty.
  At the end of the stream the decoder is flushed in the same way before \<^verbatim>\<open>'end'\<close> is
  emitted.
\<close>

definition receive :: "config \<Rightarrow> uuid \<Rightarrow> byte list \<Rightarrow> world \<Rightarrow> world" where
  "receive cfg me data w =
     (case decoders w me of
        None \<Rightarrow> deliver cfg me data w
      | Some d \<Rightarrow>
          (let buffer = fst (decoder_write d data);
               w1 = w\<lparr>decoders := (decoders w)(me \<mapsto> snd (decoder_write d data))\<rparr>
           in if buffer = [] then w1 else deliver cfg me buffer w1))"

definition flush :: "config \<Rightarrow> uuid \<Rightarrow> world \<Rightarrow> world" where
  "flush cfg me w =
     (case decoders w me of
        None \<Rightarrow> w
      | Some d \<Rightarrow>
          (let buffer = decoder_end d;
               w1 = w\<lparr>decoders := (decoders w)(me \<mapsto> ([], 0))\<rparr>
           in if buffer = [] then w1 else deliver cfg me buffer w1))"

definition close :: "uuid \<Rightarrow> world \<Rightarrow> world" where
  "close me w = (case sessions w me of None \<Rightarrow> w | Some s \<Rightarrow> store me (onClose me s w))"

fun step :: "config \<Rightarrow> event \<Rightarrow> world \<Rightarrow> world" where
  "step cfg (Connection me now connections now' pick) w =
     (if listening w then
        (let w1 = connectionListener me now w
         in case sessions w1 me of
              None \<Rightarrow> w1
            | Some s \<Rightarrow>
                (case getConnectionsCallback cfg me connections now' pick s w1 of
                   Inl e \<Rightarrow> shutdown w1
                 | Inr sw \<Rightarrow> store me sw))
      else w)"
| "step cfg (Data me data) w = receive cfg me data w"
| "step cfg (End me) w = close me (flush cfg me w)"
| "step cfg (Timeout me) w = close me w"
| "step cfg (Error me) w = close me w"
| "step cfg (Timer i) w =
     (if i < length (timers w)
      then fire cfg (timers w ! i) (w\<lparr>timers := take i (timers w) @ drop (Suc i) (timers w)\<rparr>)
      else w)"
| "step cfg Signal w = shutdown w"

fun run :: "config \<Rightarrow> event list \<Rightarrow> world \<Rightarrow> world" where
  "run cfg [] w = w"
| "run cfg (e # es) w = run cfg es (step cfg e w)"

section \<open>Scenarios\<close>

text \<open>
  The vocabulary of the statements below. A connection is fresh when it has been accepted
  and nothing has happened on it yet: its closure is in the initial state, its record is
  in the registry and not marked, its socket has neither carried a response nor been
  ended, and its decoder keeps nothing back.
\<close>

definition fresh_connection :: "world \<Rightarrow> uuid \<Rightarrow> bool" where
  "fresh_connection w u =
     (case sessions w u of
        None \<Rightarrow> False
      | Some s \<Rightarrow>
          (case map_of (gClients w) u of
             None \<Rightarrow> False
           | Some r \<Rightarrow>
               state s = Start \<and> payloadList s = [] \<and> \<not> exitLoop s \<and> \<not> disconnect r \<and>
               sent (sockets w u) = [] \<and> \<not> ended (sockets w u) \<and>
               decoders w u = Some ([], 0)))"

text \<open>Bytes below \<^verbatim>\<open>0x80\<close>, which the decoder hands on as they are.\<close>

definition ascii :: "byte list \<Rightarrow> bool" where
  "ascii bytes = list_all (\<lambda>b. b \<le> 0x7F) bytes"

text \<open>
  A push request delivered whole (the header byte is the length, then the payload), and a
  pop request (the one byte \<^verbatim>\<open>0x80\<close>), one connection each.
\<close>

definition push_events :: "(uuid \<times> buffer) list \<Rightarrow> event list" where
  "push_events ps = map (\<lambda>up. Data (fst up) (word_of_nat (length (snd up)) # snd up)) ps"

definition pop_events :: "uuid list \<Rightarrow> event list" where
  "pop_events vs = map (\<lambda>v. Data v [0x80]) vs"

text \<open>
  A configuration, a world with four accepted connections, and the same world after three
  push requests, the third of which waits (the stack holds two).
\<close>

definition example_config :: config where
  "example_config = \<lparr>maxConnections = 4, maxStackSize = 2, staleConnectionPeriodSeconds = 10\<rparr>"

definition example_world :: world where
  "example_world =
     run example_config
       [Connection ''a'' 0 1 0 0, Connection ''b'' 1 2 1 0, Connection ''c'' 2 3 2 0,
        Connection ''d'' 3 4 3 0] init_world"

definition example_full_world :: world where
  "example_full_world =
     run example_config
       (push_events [(''a'', [0x41]), (''b'', [0x42]), (''c'', [0x43])]) example_world"

text \<open>A configuration that admits one connection and calls every connection stale.\<close>

definition overflow_config :: config where
  "overflow_config = \<lparr>maxConnections = 1, maxStackSize = 2, staleConnectionPeriodSeconds = 0\<rparr>"

text \<open>
  Events by what they do to one connection: \<open>connects u\<close> holds of the acceptance of a
  connection named \<open>u\<close>, \<open>closes u\<close> of its \<^verbatim>\<open>'end'\<close>, \<^verbatim>\<open>'timeout'\<close> and \<^verbatim>\<open>'error'\<close>.
\<close>

fun connects :: "uuid \<Rightarrow> event \<Rightarrow> bool" where
  "connects u (Connection me now connections now' pick) = (me = u)"
| "connects u e = False"

fun closes :: "uuid \<Rightarrow> event \<Rightarrow> bool" where
  "closes u (End me) = (me = u)"
| "closes u (Timeout me) = (me = u)"
| "closes u (Error me) = (me = u)"
| "closes u e = False"

text \<open>A pop occurs in a run when some event leaves the stack shorter than it found it.\<close>

fun pop_occurs :: "config \<Rightarrow> event list \<Rightarrow> world \<Rightarrow> bool" where
  "pop_occurs cfg [] w = False"
| "pop_occurs cfg (e # es) w =
     (length (gLIFO (step cfg e w)) < length (gLIFO w) \<or> pop_occurs cfg es (step cfg e w))"

text \<open>
  What one event can do to the stack: nothing, remove the top, or add a new top where
  there was room.
\<close>

definition stack_move :: "config \<Rightarrow> world \<Rightarrow> world \<Rightarrow> bool" where
  "stack_move cfg w w' =
     (gLIFO w' = gLIFO w \<or>
      gLIFO w \<noteq> [] \<and> gLIFO w' = butlast (gLIFO w) \<or>
      length (gLIFO w) < maxStackSize cfg \<and> (\<exists>p. gLIFO w' = gLIFO w @ [p]))"

text \<open>The state of the server after \<^verbatim>\<open>shutdown\<close>.\<close>

definition halted :: "world \<Rightarrow> bool" where
  "halted w = (gKillMe w \<and> \<not> listening w)"

section \<open>Properties\<close>

lemmas handler_defs =
  connectionListener_def getConnectionsCallback_def disconnectOldClient_def oldest_records_def
  onData_def accumulate_def onClose_def checkStackEmpty_def checkStackFull_def client_end_def
  socket_end_def byte0_and_def sendBuffer_def store_def shutdown_def fire_def start_session_def
  deliver_def receive_def flush_def close_def decoder_write_def decoder_end_def
  incomplete_tail_def continuation_def lead_length_def utf8_def replacement_def Let_def

lemma example_world_fresh:
  "fresh_connection example_world ''a''" "fresh_connection example_world ''b''"
  "fresh_connection example_world ''c''" "fresh_connection example_world ''d''"
  "\<not> gKillMe example_world" "gLIFO example_world = []"
  by (simp_all add: example_world_def example_config_def init_world_def fresh_connection_def
      handler_defs)


subsection \<open>Bytes and headers\<close>

lemma and_7F_mod: "(n::nat) AND 0x7F = n mod 128"
  using take_bit_eq_mask [of 7 n] by (simp add: take_bit_eq_mod mask_eq_exp_minus_1)

lemma take_bit_and_exp: "take_bit k (x :: byte) AND 2 ^ k = 0"
  by (rule bit_eqI) (auto simp: bit_simps)

lemma low7_high_clear: "(word_of_nat (n mod 128) :: byte) AND 0x80 = 0"
proof -
  have "n mod 128 = take_bit 7 n"
    by (simp add: take_bit_eq_mod)
  then have "(word_of_nat (n mod 128) :: byte) = take_bit 7 (word_of_nat n)"
    by (simp only: take_bit_of_nat)
  then show ?thesis
    using take_bit_and_exp [of 7 "word_of_nat n"] by simp
qed

lemma header_high_clear: "L \<le> 127 \<Longrightarrow> (word_of_nat L :: byte) AND 0x80 = 0"
  using low7_high_clear [of L] by simp

lemma header_low7: "L \<le> 127 \<Longrightarrow> unat ((word_of_nat L :: byte) AND 0x7F) = L"
proof -
  assume L: "L \<le> 127"
  have "(word_of_nat L :: byte) AND 0x7F = take_bit 7 (word_of_nat L)"
    using take_bit_eq_mask [of 7 "word_of_nat L :: byte"] by (simp add: mask_eq_exp_minus_1)
  also have "\<dots> = word_of_nat (take_bit 7 L)"
    by (simp only: take_bit_of_nat)
  also have "take_bit 7 L = L"
    using L by (simp add: take_bit_eq_mod)
  finally show ?thesis
    using L by (simp add: unat_of_nat)
qed

lemma header_ascii: "L \<le> 127 \<Longrightarrow> (word_of_nat L :: byte) \<le> 0x7F"
  by (simp add: word_le_nat_alt unat_of_nat)

lemma ascii_high_clear: "(b :: byte) \<le> 0x7F \<Longrightarrow> b AND 0x80 = 0"
proof -
  assume "b \<le> 0x7F"
  then have "unat b \<le> 127" by (simp add: word_le_nat_alt)
  moreover have "b = word_of_nat (unat b)" by simp
  ultimately show ?thesis using header_high_clear [of "unat b"] by simp
qed


lemma header_not_busy: "(word_of_nat (n AND 0x7F) :: byte) AND 0x80 = 0"
  by (simp only: and_7F_mod low7_high_clear)


subsection \<open>What the decoder hands on\<close>

lemma utf8_from_ascii: "ascii bytes \<Longrightarrow> utf8_from [] 0 lower upper bytes = bytes"
  by (induction bytes arbitrary: lower upper) (simp_all add: ascii_def)

lemma utf8_ascii: "ascii bytes \<Longrightarrow> utf8 bytes = bytes"
  by (simp add: utf8_def utf8_from_ascii)

lemma incomplete_tail_ascii: "ascii data \<Longrightarrow> incomplete_tail data = (0, 0)"
proof (cases "data = []")
  case True
  then show ?thesis by (simp add: incomplete_tail_def)
next
  case False
  assume "ascii data"
  with False have "last data \<le> 0x7F"
    by (simp add: ascii_def list_all_iff)
  then show ?thesis
    by (simp add: incomplete_tail_def ascii_high_clear)
qed

lemma decoder_write_ascii: "ascii data \<Longrightarrow> decoder_write ([], 0) data = (data, ([], 0))"
  by (simp add: decoder_write_def Let_def incomplete_tail_ascii utf8_ascii)

lemma decoders_same:
  "decoders w me = Some d \<Longrightarrow> w\<lparr>decoders := (decoders w)(me \<mapsto> d)\<rparr> = w"
  by (simp add: fun_upd_idem)

lemma receive_ascii:
  "decoders w me = Some ([], 0) \<Longrightarrow> ascii data \<Longrightarrow> data \<noteq> [] \<Longrightarrow>
   receive cfg me data w = deliver cfg me data w"
  by (simp add: receive_def decoder_write_ascii decoders_same)


text \<open>
  A single byte with the high bit set is handed on at once, as \<^verbatim>\<open>ef bf bd\<close>, unless it could
  be the first byte of a longer character (\<open>110xxxxx\<close>, \<open>1110xxxx\<close>, \<open>11110xxx\<close>), in which
  case it is kept back.
\<close>

lemma lead_table:
  "\<forall>n\<in>set [0..<256]. 128 \<le> n \<and> lead_length (word_of_nat n) = 0 \<longrightarrow> n < 192 \<or> 248 \<le> n"
  by code_simp

lemma lone_range:
  assumes "b AND 0x80 \<noteq> 0" "lead_length b = 0"
  shows "0x80 \<le> b \<and> (b < 0xC0 \<or> 0xF8 \<le> b)"
proof -
  from assms(1) have "\<not> b \<le> 0x7F" using ascii_high_clear by blast
  then have h: "128 \<le> unat b" by (simp add: word_le_nat_alt)
  have "unat b \<in> set [0..<256]" using unsigned_less [of b] by simp
  with lead_table h assms(2) have "unat b < 192 \<or> 248 \<le> unat b"
    by auto
  with h show ?thesis by (simp add: word_le_nat_alt word_less_nat_alt)
qed

lemma decoder_write_lone:
  assumes "b AND 0x80 \<noteq> 0" "lead_length b = 0"
  shows "decoder_write ([], 0) [b] = ([0xEF, 0xBF, 0xBD], ([], 0))"
proof -
  from lone_range [OF assms] have r: "0x80 \<le> b" "b < 0xC0 \<or> 0xF8 \<le> b" by simp_all
  then have n: "\<not> b \<le> 0x7F" "\<not> (0xC2 \<le> b \<and> b \<le> 0xDF)" "\<not> (0xE0 \<le> b \<and> b \<le> 0xEF)"
    "\<not> (0xF0 \<le> b \<and> b \<le> 0xF4)"
    by (auto simp: word_le_nat_alt word_less_nat_alt)
  show ?thesis
    using assms n
    by (simp add: decoder_write_def incomplete_tail_def utf8_def replacement_def Let_def)
qed

lemma receive_lone:
  "decoders w me = Some ([], 0) \<Longrightarrow> b AND 0x80 \<noteq> 0 \<Longrightarrow> lead_length b = 0 \<Longrightarrow>
   receive cfg me [b] w = deliver cfg me [0xEF, 0xBF, 0xBD] w"
  by (simp add: receive_def decoder_write_lone decoders_same)

lemma pop_byte: "(0x80 :: byte) AND 0x80 \<noteq> 0" "lead_length 0x80 = 0"
  by (simp_all add: lead_length_def)

subsection \<open>Push and pop requests on fresh connections\<close>

lemma concat_Nil_no_empty: "concat cs = [] \<Longrightarrow> [] \<notin> set cs \<Longrightarrow> cs = []"
  by (cases cs) auto

lemma push_rest:
  assumes "sessions w u = Some s" "state s = Push"
    and "map_of (gClients w) u = Some r" "\<not> disconnect r"
    and "payloadBytesRead s = int (length (concat (payloadList s)))"
    and "length (concat (payloadList s)) + length (concat cs) = payloadLength s"
    and "length (concat (payloadList s)) < payloadLength s"
    and "[] \<notin> set cs" "\<not> gKillMe w" "\<not> exitLoop s"
    and "length (gLIFO w) < maxStackSize cfg"
    and "decoders w u = Some ([], 0)" "\<forall>c\<in>set cs. ascii c"
  shows "run cfg (map (Data u) cs) w =
     w\<lparr>gLIFO := gLIFO w @ [concat (payloadList s @ cs)],
       sessions := (sessions w)(u \<mapsto> s\<lparr>payloadList := payloadList s @ cs,
          payloadBytesRead := int (payloadLength s), state := Done\<rparr>),
       sockets := (sockets w)(u := socket_end [0] (sockets w u))\<rparr>"
  using assms
proof (induction cs arbitrary: s w)
  case Nil
  then show ?case by simp
next
  case (Cons c cs)
  let ?s1 = "s\<lparr>payloadList := payloadList s @ [c],
                 payloadBytesRead := payloadBytesRead s + int (length c)\<rparr>"
  have cne: "c \<noteq> []" using Cons.prems by auto
  show ?case
  proof (cases "payloadBytesRead ?s1 \<ge> int (payloadLength ?s1)")
    case True
    have a: "int (payloadLength s) \<le> int (length (concat (payloadList s))) + int (length c)"
      using True Cons.prems(5) by simp
    have b: "length (concat (payloadList s)) + (length c + length (concat cs)) = payloadLength s"
      using Cons.prems(6) by simp
    from a b have "length (concat cs) = 0" by linarith
    then have "concat cs = []" by (simp only: length_0_conv)
    with Cons.prems have cs: "cs = []" by (simp add: concat_Nil_no_empty)
    from True Cons.prems have br: "payloadBytesRead s + int (length c) = int (payloadLength s)"
      using cs by simp
    show ?thesis
      using Cons.prems True cs br
      by (intro world.equality ext)
        (simp_all add: receive_ascii deliver_def onData_def accumulate_def checkStackFull_def
          client_end_def store_def Let_def)
  next
    case False
    let ?w1 = "w\<lparr>sessions := (sessions w)(u \<mapsto> ?s1)\<rparr>"
    have st: "step cfg (Data u c) w = ?w1"
      using Cons.prems False cne
      by (simp add: receive_ascii deliver_def onData_def accumulate_def store_def Let_def)
    have "run cfg (map (Data u) cs) ?w1 =
       ?w1\<lparr>gLIFO := gLIFO ?w1 @ [concat (payloadList ?s1 @ cs)],
         sessions := (sessions ?w1)(u \<mapsto> ?s1\<lparr>payloadList := payloadList ?s1 @ cs,
            payloadBytesRead := int (payloadLength ?s1), state := Done\<rparr>),
         sockets := (sockets ?w1)(u := socket_end [0] (sockets ?w1 u))\<rparr>"
      using Cons.prems False by (intro Cons.IH) auto
    then show ?thesis
      using st by (intro world.equality ext) simp_all
  qed
qed

lemma run_append: "run cfg (xs @ ys) w = run cfg ys (run cfg xs w)"
  by (induction xs arbitrary: w) simp_all

lemma push_request:
  assumes fr: "fresh_connection w u" and nk: "\<not> gKillMe w"
    and room: "length (gLIFO w) < maxStackSize cfg"
    and len: "length payload \<le> 127"
    and req: "concat chunks = word_of_nat (length payload) # payload"
    and ne: "[] \<notin> set chunks" and asc: "ascii payload"
  shows "\<exists>s'. run cfg (map (Data u) chunks) w =
     w\<lparr>gLIFO := gLIFO w @ [payload],
       sessions := (sessions w)(u \<mapsto> s'),
       sockets := (sockets w)(u := \<lparr>sent = [0], ended = True\<rparr>)\<rparr>"
proof -
  from fr obtain s r where s: "sessions w u = Some s" and r: "map_of (gClients w) u = Some r"
    and st: "state s = Start" "payloadList s = []" "\<not> exitLoop s" "\<not> disconnect r"
    and sk: "sent (sockets w u) = []" "\<not> ended (sockets w u)"
    and dec: "decoders w u = Some ([], 0)"
    by (auto simp: fresh_connection_def split: option.splits)
  have "ascii (concat chunks)"
    using asc len by (simp add: req ascii_def header_ascii)
  then have ac: "\<forall>x\<in>set chunks. ascii x"
    by (auto simp: ascii_def list_all_iff)
  from req obtain c cs where chunks: "chunks = c # cs"
    by (cases chunks) auto
  with ne obtain h rest where c: "c = h # rest"
    by (cases c) auto
  from req chunks c have h: "h = word_of_nat (length payload)"
    and pl: "rest @ concat cs = payload"
    by simp_all
  have se: "socket_end [0] (sockets w u) = \<lparr>sent = [0], ended = True\<rparr>"
    using sk by (simp add: socket_end_def)
  have hi: "byte0_and c 0x80 = 0"
    using len by (simp add: byte0_and_def c h header_high_clear)
  have lo: "unat (byte0_and c 0x7F) = length payload"
    using len by (simp add: byte0_and_def c h header_low7)
  have rl: "length rest + length (concat cs) = length payload"
    using pl by (metis length_append)
  then have tk: "take (length payload) rest = rest"
    by simp
  let ?s1 = "s\<lparr>state := Push, payloadLength := length payload,
               payloadList := [rest], payloadBytesRead := int (length rest)\<rparr>"
  show ?thesis
  proof (cases "length rest \<ge> length payload")
    case True
    with rl have "length (concat cs) = 0" by linarith
    then have "concat cs = []" by (simp only: length_0_conv)
    with ne chunks have cs: "cs = []" by (simp add: concat_Nil_no_empty)
    with pl have rp: "rest = payload" by simp
    have "run cfg (map (Data u) chunks) w =
       w\<lparr>gLIFO := gLIFO w @ [payload],
         sessions := (sessions w)(u \<mapsto> ?s1\<lparr>state := Done\<rparr>),
         sockets := (sockets w)(u := \<lparr>sent = [0], ended = True\<rparr>)\<rparr>"
      using s r st nk room hi lo tk rp se dec ac
      by (intro world.equality ext)
        (simp_all add: chunks cs c receive_ascii deliver_def onData_def accumulate_def
          checkStackFull_def client_end_def store_def Let_def)
    then show ?thesis by blast
  next
    case False
    let ?w1 = "w\<lparr>sessions := (sessions w)(u \<mapsto> ?s1)\<rparr>"
    have step1: "step cfg (Data u c) w = ?w1"
      using s r st hi lo tk False dec ac
      by (simp add: chunks c receive_ascii deliver_def onData_def accumulate_def store_def Let_def)
    have "run cfg (map (Data u) cs) ?w1 =
       ?w1\<lparr>gLIFO := gLIFO ?w1 @ [concat (payloadList ?s1 @ cs)],
         sessions := (sessions ?w1)(u \<mapsto> ?s1\<lparr>payloadList := payloadList ?s1 @ cs,
            payloadBytesRead := int (payloadLength ?s1), state := Done\<rparr>),
         sockets := (sockets ?w1)(u := socket_end [0] (sockets ?w1 u))\<rparr>"
      using r st nk room False rl ne chunks dec ac
      by (intro push_rest [where r = r]) auto
    then have "run cfg (map (Data u) chunks) w =
       w\<lparr>gLIFO := gLIFO w @ [payload],
         sessions := (sessions w)(u \<mapsto> ?s1\<lparr>payloadList := payloadList ?s1 @ cs,
            payloadBytesRead := int (payloadLength ?s1), state := Done\<rparr>),
         sockets := (sockets w)(u := \<lparr>sent = [0], ended = True\<rparr>)\<rparr>"
      using step1 pl se
      by (intro world.equality ext) (simp_all add: chunks)
    then show ?thesis by blast
  qed
qed

lemma pop_request:
  assumes fr: "fresh_connection w v" and nk: "\<not> gKillMe w"
    and st: "gLIFO w \<noteq> []" and b: "b AND 0x80 \<noteq> 0" "lead_length b = 0"
  shows "\<exists>s'. step cfg (Data v [b]) w =
     w\<lparr>gLIFO := butlast (gLIFO w),
       sessions := (sessions w)(v \<mapsto> s'),
       sockets := (sockets w)(v := \<lparr>sent = sendBuffer (last (gLIFO w)), ended = True\<rparr>)\<rparr>"
proof -
  from fr obtain s r where s: "sessions w v = Some s" and r: "map_of (gClients w) v = Some r"
    and fs: "state s = Start" "\<not> exitLoop s" "\<not> disconnect r"
    and sk: "sent (sockets w v) = []" "\<not> ended (sockets w v)"
    and dec: "decoders w v = Some ([], 0)"
    by (auto simp: fresh_connection_def split: option.splits)
  have "step cfg (Data v [b]) w =
     w\<lparr>gLIFO := butlast (gLIFO w),
       sessions := (sessions w)(v \<mapsto> s\<lparr>state := Pop\<rparr>),
       sockets := (sockets w)(v := \<lparr>sent = sendBuffer (last (gLIFO w)), ended = True\<rparr>)\<rparr>"
    using s r fs sk nk st dec b
    by (intro world.equality ext)
      (simp_all add: receive_lone deliver_def onData_def byte0_and_def checkStackEmpty_def
        client_end_def socket_end_def store_def Let_def)
  then show ?thesis by blast
qed

lemma fresh_connection_frame:
  "v \<noteq> u \<Longrightarrow>
   fresh_connection (w\<lparr>gLIFO := g, sessions := (sessions w)(u \<mapsto> s'),
      sockets := (sockets w)(u := k)\<rparr>) v = fresh_connection w v"
  by (simp add: fresh_connection_def split: option.splits)

lemma sendBuffer_short: "length p \<le> 127 \<Longrightarrow> sendBuffer p = word_of_nat (length p) # p"
  by (simp add: sendBuffer_def and_7F_mod)

lemma pushes_complete:
  assumes "distinct (map fst ps)"
    and "\<forall>u\<in>set (map fst ps). fresh_connection w u"
    and "\<not> gKillMe w"
    and "length (gLIFO w) + length ps \<le> maxStackSize cfg"
    and "\<forall>p\<in>set (map snd ps). length p \<le> 127 \<and> ascii p"
  shows "gLIFO (run cfg (push_events ps) w) = gLIFO w @ map snd ps \<and>
     \<not> gKillMe (run cfg (push_events ps) w) \<and>
     (\<forall>x. x \<notin> set (map fst ps) \<longrightarrow>
        fresh_connection (run cfg (push_events ps) w) x = fresh_connection w x)"
  using assms
proof (induction ps arbitrary: w)
  case Nil
  then show ?case by (simp add: push_events_def)
next
  case (Cons up ps)
  obtain u p where up: "up = (u, p)" by (cases up)
  have "\<exists>s'. run cfg (map (Data u) [word_of_nat (length p) # p]) w =
     w\<lparr>gLIFO := gLIFO w @ [p], sessions := (sessions w)(u \<mapsto> s'),
       sockets := (sockets w)(u := \<lparr>sent = [0], ended = True\<rparr>)\<rparr>"
    using Cons.prems up by (intro push_request) auto
  then obtain s' where st: "step cfg (Data u (word_of_nat (length p) # p)) w =
     w\<lparr>gLIFO := gLIFO w @ [p], sessions := (sessions w)(u \<mapsto> s'),
       sockets := (sockets w)(u := \<lparr>sent = [0], ended = True\<rparr>)\<rparr>" (is "_ = ?w1")
    by auto
  have fr: "fresh_connection ?w1 x = fresh_connection w x" if "x \<noteq> u" for x
    using that by (rule fresh_connection_frame)
  have ih: "gLIFO (run cfg (push_events ps) ?w1) = gLIFO ?w1 @ map snd ps \<and>
     \<not> gKillMe (run cfg (push_events ps) ?w1) \<and>
     (\<forall>x. x \<notin> set (map fst ps) \<longrightarrow>
        fresh_connection (run cfg (push_events ps) ?w1) x = fresh_connection ?w1 x)"
  proof (rule Cons.IH)
    show "distinct (map fst ps)" using Cons.prems by simp
    show "\<forall>x\<in>set (map fst ps). fresh_connection ?w1 x"
    proof
      fix x assume x: "x \<in> set (map fst ps)"
      with Cons.prems up have "x \<noteq> u" by auto
      moreover from x Cons.prems have "fresh_connection w x" by auto
      ultimately show "fresh_connection ?w1 x" by (simp add: fr)
    qed
    show "\<not> gKillMe ?w1" using Cons.prems by simp
    show "length (gLIFO ?w1) + length ps \<le> maxStackSize cfg" using Cons.prems by simp
    show "\<forall>p\<in>set (map snd ps). length p \<le> 127 \<and> ascii p" using Cons.prems by simp
  qed
  have run: "run cfg (push_events (up # ps)) w = run cfg (push_events ps) ?w1"
    using st by (simp add: push_events_def up)
  show ?case
    unfolding run using ih fr by (simp add: up)
qed

lemma pops_complete:
  assumes "distinct vs"
    and "\<forall>v\<in>set vs. fresh_connection w v"
    and "\<not> gKillMe w"
    and "length vs \<le> length (gLIFO w)"
  shows "gLIFO (run cfg (pop_events vs) w) = take (length (gLIFO w) - length vs) (gLIFO w) \<and>
     map (\<lambda>v. sent (sockets (run cfg (pop_events vs) w) v)) vs =
       map sendBuffer (take (length vs) (rev (gLIFO w))) \<and>
     (\<forall>x. x \<notin> set vs \<longrightarrow> sockets (run cfg (pop_events vs) w) x = sockets w x)"
  using assms
proof (induction vs arbitrary: w)
  case Nil
  then show ?case by (simp add: pop_events_def)
next
  case (Cons v vs)
  from Cons.prems have ne: "gLIFO w \<noteq> []" by auto
  have "\<exists>s'. step cfg (Data v [0x80]) w =
     w\<lparr>gLIFO := butlast (gLIFO w), sessions := (sessions w)(v \<mapsto> s'),
       sockets := (sockets w)(v := \<lparr>sent = sendBuffer (last (gLIFO w)), ended = True\<rparr>)\<rparr>"
    using Cons.prems ne by (intro pop_request) (auto simp: pop_byte)
  then obtain s' where st: "step cfg (Data v [0x80]) w =
     w\<lparr>gLIFO := butlast (gLIFO w), sessions := (sessions w)(v \<mapsto> s'),
       sockets := (sockets w)(v := \<lparr>sent = sendBuffer (last (gLIFO w)), ended = True\<rparr>)\<rparr>"
      (is "_ = ?w1")
    by auto
  have fr: "fresh_connection ?w1 x = fresh_connection w x" if "x \<noteq> v" for x
    using that by (rule fresh_connection_frame)
  have ih: "gLIFO (run cfg (pop_events vs) ?w1) =
       take (length (gLIFO ?w1) - length vs) (gLIFO ?w1) \<and>
     map (\<lambda>v. sent (sockets (run cfg (pop_events vs) ?w1) v)) vs =
       map sendBuffer (take (length vs) (rev (gLIFO ?w1))) \<and>
     (\<forall>x. x \<notin> set vs \<longrightarrow> sockets (run cfg (pop_events vs) ?w1) x = sockets ?w1 x)"
  proof (rule Cons.IH)
    show "distinct vs" using Cons.prems by simp
    show "\<forall>x\<in>set vs. fresh_connection ?w1 x"
    proof
      fix x assume x: "x \<in> set vs"
      with Cons.prems have "x \<noteq> v" by auto
      with x Cons.prems show "fresh_connection ?w1 x" by (simp add: fr)
    qed
    show "\<not> gKillMe ?w1" using Cons.prems by simp
    show "length vs \<le> length (gLIFO ?w1)" using Cons.prems by simp
  qed
  have run: "run cfg (pop_events (v # vs)) w = run cfg (pop_events vs) ?w1"
    using st by (simp add: pop_events_def)
  have rv: "rev (gLIFO w) = last (gLIFO w) # rev (butlast (gLIFO w))"
    using ne by (metis append_butlast_last_id rev.simps(2) rev_rev_ident rev_swap singleton_rev_conv append_Cons append_Nil)
  have tk: "take (length (gLIFO w) - Suc (length vs)) (gLIFO w) =
     take (length (gLIFO w) - Suc (length vs)) (butlast (gLIFO w))"
    using ne by (simp add: take_butlast)
  have v: "v \<notin> set vs" using Cons.prems by simp
  show ?case
    unfolding run using ih v tk by (simp add: rv)
qed

subsection \<open>Payloads of bytes below \<^verbatim>\<open>0x80\<close>\<close>

text \<open>
  Bytes below \<^verbatim>\<open>0x80\<close> pass the decoder unchanged, and for payloads made of them the
  server is a stack of byte strings. \<open>N\<close> push requests followed by \<open>N\<close> pop requests,
  each on a fresh connection and with room for the \<open>N\<close> payloads: the responses to the pops
  carry the payloads in the reverse of the order they were pushed in, and after \<open>k\<close> of the
  pops exactly the \<open>k\<close> most recently pushed payloads are gone.
\<close>

lemma lifo_order_ascii:
  assumes "distinct (map fst ps @ vs)"
    and "\<forall>u\<in>set (map fst ps @ vs). fresh_connection w u"
    and "\<not> gKillMe w"
    and "length (gLIFO w) + length ps \<le> maxStackSize cfg"
    and "\<forall>p\<in>set (map snd ps). length p \<le> 127 \<and> ascii p"
    and "length vs = length ps"
  shows "map (\<lambda>v. sent (sockets (run cfg (push_events ps @ pop_events vs) w) v)) vs =
       map sendBuffer (rev (map snd ps)) \<and>
     map (\<lambda>v. tl (sent (sockets (run cfg (push_events ps @ pop_events vs) w) v))) vs =
       rev (map snd ps) \<and>
     gLIFO (run cfg (push_events ps @ pop_events vs) w) = gLIFO w \<and>
     (\<forall>k\<le>length vs. gLIFO (run cfg (push_events ps @ pop_events (take k vs)) w) =
        gLIFO w @ take (length ps - k) (map snd ps))"
proof -
  let ?w1 = "run cfg (push_events ps) w"
  have pu: "gLIFO ?w1 = gLIFO w @ map snd ps \<and> \<not> gKillMe ?w1 \<and>
     (\<forall>x. x \<notin> set (map fst ps) \<longrightarrow> fresh_connection ?w1 x = fresh_connection w x)"
    using assms by (intro pushes_complete) auto
  have fr: "\<forall>v\<in>set vs. fresh_connection ?w1 v"
  proof
    fix v assume v: "v \<in> set vs"
    with assms(1) have "v \<notin> set (map fst ps)" by auto
    with pu have "fresh_connection ?w1 v = fresh_connection w v" by blast
    with v assms(2) show "fresh_connection ?w1 v" by auto
  qed
  have po: "gLIFO (run cfg (pop_events us) ?w1) =
       take (length (gLIFO ?w1) - length us) (gLIFO ?w1) \<and>
     map (\<lambda>v. sent (sockets (run cfg (pop_events us) ?w1) v)) us =
       map sendBuffer (take (length us) (rev (gLIFO ?w1))) \<and>
     (\<forall>x. x \<notin> set us \<longrightarrow> sockets (run cfg (pop_events us) ?w1) x = sockets ?w1 x)"
    if "distinct us" "set us \<subseteq> set vs" "length us \<le> length ps" for us
    using that fr pu by (intro pops_complete) auto
  have dv: "distinct vs" using assms(1) by simp
  have a: "map (\<lambda>v. sent (sockets (run cfg (push_events ps @ pop_events vs) w) v)) vs =
     map sendBuffer (rev (map snd ps))"
    using po [of vs] dv assms(6) pu by (simp add: run_append)
  have b: "map (\<lambda>v. tl (sent (sockets (run cfg (push_events ps @ pop_events vs) w) v))) vs =
     rev (map snd ps)"
  proof -
    have "map (\<lambda>v. tl (sent (sockets (run cfg (push_events ps @ pop_events vs) w) v))) vs =
       map tl (map (\<lambda>v. sent (sockets (run cfg (push_events ps @ pop_events vs) w) v)) vs)"
      by simp
    also have "\<dots> = map tl (map sendBuffer (rev (map snd ps)))"
      by (simp only: a)
    also have "\<dots> = rev (map snd ps)"
      by (simp add: sendBuffer_def comp_def)
    finally show ?thesis .
  qed
  have c: "gLIFO (run cfg (push_events ps @ pop_events vs) w) = gLIFO w"
    using po [of vs] dv assms(6) pu by (simp add: run_append)
  have d: "\<forall>k\<le>length vs. gLIFO (run cfg (push_events ps @ pop_events (take k vs)) w) =
     gLIFO w @ take (length ps - k) (map snd ps)"
  proof (intro allI impI)
    fix k assume k: "k \<le> length vs"
    have "distinct (take k vs)" using dv by (rule distinct_take)
    moreover have "set (take k vs) \<subseteq> set vs" by (rule set_take_subset)
    moreover have "length (take k vs) \<le> length ps" using assms(6) by simp
    ultimately show "gLIFO (run cfg (push_events ps @ pop_events (take k vs)) w) =
       gLIFO w @ take (length ps - k) (map snd ps)"
      using po [of "take k vs"] pu k assms(6) by (simp add: run_append min_def)
  qed
  from a b c d show ?thesis by blast
qed

text \<open>
  A push request for such a payload, cut into non-empty deliveries in any way: the
  connection is sent the one byte \<^verbatim>\<open>0x00\<close>, and a pop request on another fresh connection
  is then answered with the length byte followed by the same payload.
\<close>

lemma framing_round_trip_ascii:
  assumes "fresh_connection w u" and "fresh_connection w v" and "u \<noteq> v"
    and "\<not> gKillMe w"
    and "length (gLIFO w) < maxStackSize cfg"
    and "length payload \<le> 127"
    and "concat chunks = word_of_nat (length payload) # payload"
    and "[] \<notin> set chunks"
    and "b AND 0x80 \<noteq> 0 \<and> lead_length b = 0"
    and "ascii payload"
  shows "sent (sockets (run cfg (map (Data u) chunks) w) u) = [0] \<and>
     ended (sockets (run cfg (map (Data u) chunks) w) u) \<and>
     gLIFO (run cfg (map (Data u) chunks) w) = gLIFO w @ [payload] \<and>
     sent (sockets (run cfg (map (Data u) chunks @ [Data v [b]]) w) v) =
       word_of_nat (length payload) # payload \<and>
     sent (sockets (run cfg (map (Data u) chunks @ [Data v [b]]) w) u) = [0] \<and>
     gLIFO (run cfg (map (Data u) chunks @ [Data v [b]]) w) = gLIFO w"
proof -
  from push_request [OF assms(1) assms(4) assms(5) assms(6) assms(7) assms(8) assms(10)]
  obtain s' where w1: "run cfg (map (Data u) chunks) w =
     w\<lparr>gLIFO := gLIFO w @ [payload], sessions := (sessions w)(u \<mapsto> s'),
       sockets := (sockets w)(u := \<lparr>sent = [0], ended = True\<rparr>)\<rparr>" (is "_ = ?w1")
    by blast
  have fv: "fresh_connection ?w1 v"
    using assms(2,3) by (simp add: fresh_connection_frame)
  have "\<exists>s''. step cfg (Data v [b]) ?w1 =
     ?w1\<lparr>gLIFO := butlast (gLIFO ?w1), sessions := (sessions ?w1)(v \<mapsto> s''),
       sockets := (sockets ?w1)(v := \<lparr>sent = sendBuffer (last (gLIFO ?w1)), ended = True\<rparr>)\<rparr>"
    using fv assms(4,9) by (intro pop_request) simp_all
  then obtain s'' where w2: "step cfg (Data v [b]) ?w1 =
     ?w1\<lparr>gLIFO := butlast (gLIFO ?w1), sessions := (sessions ?w1)(v \<mapsto> s''),
       sockets := (sockets ?w1)(v := \<lparr>sent = sendBuffer (last (gLIFO ?w1)), ended = True\<rparr>)\<rparr>"
      (is "_ = ?w2")
    by blast
  have r2: "run cfg (map (Data u) chunks @ [Data v [b]]) w = ?w2"
    by (simp only: run_append w1 run.simps w2)
  show ?thesis
    unfolding r2 w1 using assms(3,6) by (simp add: sendBuffer_short)
qed

subsection \<open>Bytes above \<^verbatim>\<open>0x7F\<close>\<close>

text \<open>
  C1. Two push requests with the payloads \<^verbatim>\<open>ff\<close> and \<^verbatim>\<open>fe\<close>, then two pop requests. Neither
  byte is UTF-8, so the decoder installed by \<^verbatim>\<open>setEncoding\<close> turns each into U+FFFD, whose
  first byte \<^verbatim>\<open>ef\<close> is what the data handler slices out and stores. Both pops return
  \<^verbatim>\<open>01 ef\<close>: not the payloads pushed, in either order.
\<close>

theorem lifo_payloads_replaced:
  "map (\<lambda>v. sent (sockets (run example_config
      (push_events [(''a'', [0xFF]), (''b'', [0xFE])] @ pop_events [''c'', ''d''])
      example_world) v)) [''c'', ''d''] = [[0x01, 0xEF], [0x01, 0xEF]] \<and>
   gLIFO (run example_config (push_events [(''a'', [0xFF]), (''b'', [0xFE])]) example_world) =
     [[0xEF], [0xEF]]"
  by (simp add: example_world_def example_config_def init_world_def push_events_def
      pop_events_def handler_defs)

text \<open>
  C3. The push request \<^verbatim>\<open>01 ff\<close>. Delivered whole, it is answered \<^verbatim>\<open>00\<close> and the pop that
  follows returns \<^verbatim>\<open>01 ef\<close>. Delivered one byte at a time, it is answered \<^verbatim>\<open>00\<close> and the pop
  returns \<^verbatim>\<open>03 ef bf bd\<close>. The push request \<^verbatim>\<open>01 c3\<close> is not answered at all: the decoder
  keeps \<^verbatim>\<open>c3\<close> back as the start of a two-byte character.
\<close>

theorem framing_bytes_replaced:
  "sent (sockets (run example_config
      [Data ''a'' [0x01, 0xFF], Data ''b'' [0x80]] example_world) ''a'') = [0x00] \<and>
   sent (sockets (run example_config
      [Data ''a'' [0x01, 0xFF], Data ''b'' [0x80]] example_world) ''b'') = [0x01, 0xEF] \<and>
   sent (sockets (run example_config
      [Data ''a'' [0x01], Data ''a'' [0xFF], Data ''b'' [0x80]] example_world) ''a'') = [0x00] \<and>
   sent (sockets (run example_config
      [Data ''a'' [0x01], Data ''a'' [0xFF], Data ''b'' [0x80]] example_world) ''b'') =
     [0x03, 0xEF, 0xBF, 0xBD] \<and>
   sent (sockets (run example_config [Data ''a'' [0x01, 0xC3]] example_world) ''a'') = [] \<and>
   gLIFO (run example_config [Data ''a'' [0x01, 0xC3]] example_world) = []"
  by (simp add: example_world_def example_config_def init_world_def handler_defs and_7F_mod)

subsection \<open>Bytes beyond the declared length\<close>

text \<open>
  C4. The first delivery is cut to the declared length, a later one is not: with the
  header \<^verbatim>\<open>0x02\<close> and one payload byte in the first delivery and three bytes in the
  second, all four bytes are stored.
\<close>

theorem late_excess_is_stored:
  "gLIFO (run example_config
      [Connection ''a'' 0 1 0 0, Data ''a'' [0x02, 0x41], Data ''a'' [0x42, 0x43, 0x44]]
      init_world) = [[0x41, 0x42, 0x43, 0x44]]"
  by (simp add: example_config_def init_world_def handler_defs)

subsection \<open>Containment of faults\<close>

text \<open>
  C7. A delivery on a connection whose record has been removed makes the data handler
  throw on its first line, and the handler of uncaught exceptions shuts the server down.
  Two runs end there. In the first the record is removed by the handler of \<^verbatim>\<open>'timeout'\<close>.
  In the second a client sends one byte after its push was answered: the handler, still in
  state \<^verbatim>\<open>'done'\<close>, runs \<^verbatim>\<open>checkStackFull\<close> again and writes to the socket it has ended;
  Node reports that write as an \<^verbatim>\<open>'error'\<close>, whose handler removes the record; the next
  byte from the client brings the server down.
\<close>

theorem data_after_removal_shuts_down:
  "gKillMe (run example_config
      [Connection ''a'' 0 1 0 0, Timeout ''a'', Data ''a'' [0x80]] init_world) \<and>
   \<not> listening (run example_config
      [Connection ''a'' 0 1 0 0, Timeout ''a'', Data ''a'' [0x80]] init_world) \<and>
   \<not> gKillMe (run example_config [Connection ''a'' 0 1 0 0, Timeout ''a''] init_world) \<and>
   gKillMe (run example_config
      [Connection ''a'' 0 1 0 0, Data ''a'' [0x01, 0x41], Data ''a'' [0x42], Error ''a'',
       Data ''a'' [0x43]] init_world) \<and>
   \<not> listening (run example_config
      [Connection ''a'' 0 1 0 0, Data ''a'' [0x01, 0x41], Data ''a'' [0x42], Error ''a'',
       Data ''a'' [0x43]] init_world)"
  by (simp add: example_config_def init_world_def handler_defs AList.delete_eq)

subsection \<open>Shutdown\<close>

lemma checkStackEmpty_halted: "gKillMe w \<Longrightarrow> checkStackEmpty me s w = w"
  by (simp add: checkStackEmpty_def)

lemma checkStackFull_halted: "gKillMe w \<Longrightarrow> checkStackFull cfg me p s w = w"
  by (simp add: checkStackFull_def)

lemma fire_halted: "gKillMe w \<Longrightarrow> fire cfg t w = w"
  by (simp add: fire_def checkStackEmpty_halted checkStackFull_halted
      split: waiter.splits option.splits)

lemma onData_halted:
  "gKillMe w \<Longrightarrow> onData cfg me buffer s w = Inr (s', w') \<Longrightarrow> w' = w"
  by (auto simp: onData_def Let_def checkStackEmpty_halted checkStackFull_halted
      split: option.splits if_splits)

lemma halted_shutdown: "halted (shutdown w)"
  by (simp add: halted_def shutdown_def)

lemma deliver_halted:
  assumes "halted w"
  shows "halted (deliver cfg me buffer w) \<and> gLIFO (deliver cfg me buffer w) = gLIFO w \<and>
     sockets (deliver cfg me buffer w) = sockets w \<and>
     timers (deliver cfg me buffer w) = timers w"
proof (cases "sessions w me")
  case None
  with assms show ?thesis by (simp add: deliver_def)
next
  case (Some s)
  show ?thesis
  proof (cases "onData cfg me buffer s w")
    case (Inl err)
    with Some assms show ?thesis by (simp add: deliver_def halted_def shutdown_def)
  next
    case (Inr sw)
    obtain s' w' where sw: "sw = (s', w')" by (cases sw)
    from assms Inr sw have "w' = w" by (auto simp: halted_def dest: onData_halted)
    with Some Inr sw assms show ?thesis by (simp add: deliver_def store_def halted_def)
  qed
qed

lemma receive_halted:
  assumes "halted w"
  shows "halted (receive cfg me data w) \<and> gLIFO (receive cfg me data w) = gLIFO w \<and>
     sockets (receive cfg me data w) = sockets w \<and>
     timers (receive cfg me data w) = timers w"
proof (cases "decoders w me")
  case None
  with deliver_halted [OF assms] show ?thesis by (simp add: receive_def)
next
  case (Some d)
  let ?w1 = "w\<lparr>decoders := (decoders w)(me \<mapsto> snd (decoder_write d data))\<rparr>"
  have h: "halted ?w1" using assms by (simp add: halted_def)
  from deliver_halted [OF h, of cfg me "fst (decoder_write d data)"] Some assms h
  show ?thesis by (simp add: receive_def Let_def)
qed

lemma flush_halted:
  assumes "halted w"
  shows "halted (flush cfg me w) \<and> gLIFO (flush cfg me w) = gLIFO w \<and>
     sockets (flush cfg me w) = sockets w \<and>
     timers (flush cfg me w) = timers w"
proof (cases "decoders w me")
  case None
  with assms show ?thesis by (simp add: flush_def)
next
  case (Some d)
  let ?w1 = "w\<lparr>decoders := (decoders w)(me \<mapsto> ([], 0))\<rparr>"
  have h: "halted ?w1" using assms by (simp add: halted_def)
  from deliver_halted [OF h, of cfg me "decoder_end d"] Some assms h
  show ?thesis by (simp add: flush_def Let_def)
qed

lemma close_halted:
  assumes "halted w"
  shows "halted (close me w) \<and> gLIFO (close me w) = gLIFO w \<and>
     sockets (close me w) = sockets w \<and> timers (close me w) = timers w"
  using assms by (simp add: close_def halted_def onClose_def store_def split: option.splits)

lemma step_halted:
  assumes "halted w"
  shows "halted (step cfg e w) \<and> gLIFO (step cfg e w) = gLIFO w \<and>
     sockets (step cfg e w) = sockets w \<and>
     length (timers (step cfg e w)) \<le> length (timers w)"
proof (cases e)
  case (Connection me now connections now' pick)
  with assms show ?thesis by (simp add: halted_def)
next
  case (Data me data)
  with receive_halted [OF assms, of cfg me data] show ?thesis by simp
next
  case (End me)
  from flush_halted [OF assms, of cfg me]
  have h: "halted (flush cfg me w)" and e: "gLIFO (flush cfg me w) = gLIFO w"
    "sockets (flush cfg me w) = sockets w" "timers (flush cfg me w) = timers w"
    by simp_all
  from close_halted [OF h, of me] e End show ?thesis by simp
next
  case (Timeout me)
  with close_halted [OF assms, of me] show ?thesis by simp
next
  case (Error me)
  with close_halted [OF assms, of me] show ?thesis by simp
next
  case (Timer i)
  with assms show ?thesis
    by (simp add: halted_def fire_halted)
next
  case Signal
  with assms show ?thesis by (simp add: halted_def shutdown_def)
qed

lemma run_halted:
  "halted w \<Longrightarrow> halted (run cfg es w) \<and> gLIFO (run cfg es w) = gLIFO w \<and>
     sockets (run cfg es w) = sockets w \<and> length (timers (run cfg es w)) \<le> length (timers w)"
proof (induction es arbitrary: w)
  case Nil
  then show ?case by simp
next
  case (Cons e es)
  from step_halted [OF Cons.prems, of cfg e]
  have 1: "halted (step cfg e w)" and 2: "gLIFO (step cfg e w) = gLIFO w"
    and 3: "sockets (step cfg e w) = sockets w"
    and 4: "length (timers (step cfg e w)) \<le> length (timers w)"
    by simp_all
  from Cons.IH [OF 1] 2 3 4 show ?case by simp
qed

lemma pop_pending:
  assumes fr: "fresh_connection w u" and nk: "\<not> gKillMe w"
    and st: "gLIFO w = []" and b: "b AND 0x80 \<noteq> 0" "lead_length b = 0"
  shows "\<exists>s'. step cfg (Data u [b]) w =
     w\<lparr>sessions := (sessions w)(u \<mapsto> s'), timers := timers w @ [CheckStackEmpty u]\<rparr>"
proof -
  from fr obtain s r where s: "sessions w u = Some s" and r: "map_of (gClients w) u = Some r"
    and fs: "state s = Start" "\<not> exitLoop s" "\<not> disconnect r"
    and dec: "decoders w u = Some ([], 0)"
    by (auto simp: fresh_connection_def split: option.splits)
  have "step cfg (Data u [b]) w =
     w\<lparr>sessions := (sessions w)(u \<mapsto> s\<lparr>state := Pop\<rparr>), timers := timers w @ [CheckStackEmpty u]\<rparr>"
    using s r fs nk st b dec
    by (intro world.equality ext)
      (simp_all add: receive_lone deliver_def onData_def byte0_and_def
        checkStackEmpty_def store_def Let_def)
  then show ?thesis by blast
qed

text \<open>
  C9. Once \<^verbatim>\<open>shutdown\<close> has run, whatever events follow, the stack is never modified again
  and no socket is written to or ended; a waiting push or pop that fires gives up without
  re-arming its timer. In particular a pop request that found the stack empty, followed
  by the termination signal, is never answered. The pop request is any single byte with
  the high bit set that the decoder hands on at once; one that could start a longer
  character waits in the decoder instead and is no request yet.
\<close>

theorem shutdown_abandons:
  "gLIFO (run cfg es (shutdown w)) = gLIFO w \<and>
   sockets (run cfg es (shutdown w)) = sockets w \<and>
   length (timers (run cfg es (shutdown w))) \<le> length (timers w) \<and>
   checkStackEmpty me s (shutdown w) = shutdown w \<and>
   checkStackFull cfg me p s (shutdown w) = shutdown w \<and>
   (i < length (timers w) \<longrightarrow>
      step cfg (Timer i) (shutdown w) =
        (shutdown w)\<lparr>timers := take i (timers w) @ drop (Suc i) (timers w)\<rparr>) \<and>
   (fresh_connection w u \<and> \<not> gKillMe w \<and> gLIFO w = [] \<and>
    b AND 0x80 \<noteq> 0 \<and> lead_length b = 0 \<longrightarrow>
      CheckStackEmpty u \<in> set (timers (step cfg (Data u [b]) w)) \<and>
      sent (sockets (run cfg (Data u [b] # Signal # es) w) u) = [] \<and>
      gLIFO (run cfg (Data u [b] # Signal # es) w) = [])"
proof -
  have h: "halted (shutdown w)" by (rule halted_shutdown)
  have k: "gKillMe (shutdown w)" by (simp add: shutdown_def)
  from run_halted [OF h, of cfg es]
  have a: "gLIFO (run cfg es (shutdown w)) = gLIFO w"
    and b: "sockets (run cfg es (shutdown w)) = sockets w"
    and c: "length (timers (run cfg es (shutdown w))) \<le> length (timers w)"
    by (simp_all add: shutdown_def)
  have d: "checkStackEmpty me s (shutdown w) = shutdown w"
    using k by (rule checkStackEmpty_halted)
  have e: "checkStackFull cfg me p s (shutdown w) = shutdown w"
    using k by (rule checkStackFull_halted)
  have f: "step cfg (Timer i) (shutdown w) =
      (shutdown w)\<lparr>timers := take i (timers w) @ drop (Suc i) (timers w)\<rparr>"
    if "i < length (timers w)"
    using that by (simp add: shutdown_def fire_halted)
  have g: "CheckStackEmpty u \<in> set (timers (step cfg (Data u [b]) w)) \<and>
      sent (sockets (run cfg (Data u [b] # Signal # es) w) u) = [] \<and>
      gLIFO (run cfg (Data u [b] # Signal # es) w) = []"
    if fr: "fresh_connection w u" and nk: "\<not> gKillMe w" and em: "gLIFO w = []"
      and hb: "b AND 0x80 \<noteq> 0" "lead_length b = 0"
  proof -
    from pop_pending [OF fr nk em hb, of cfg] obtain s' where
      w1: "step cfg (Data u [b]) w =
        w\<lparr>sessions := (sessions w)(u \<mapsto> s'), timers := timers w @ [CheckStackEmpty u]\<rparr>"
        (is "_ = ?w1")
      by blast
    have sk: "sent (sockets w u) = []"
      using fr by (auto simp: fresh_connection_def split: option.splits)
    have r: "run cfg (Data u [b] # Signal # es) w = run cfg es (shutdown ?w1)"
      by (simp only: run.simps w1 step.simps(7))
    from run_halted [OF halted_shutdown, of cfg es ?w1]
    have "gLIFO (run cfg es (shutdown ?w1)) = gLIFO w"
      and "sockets (run cfg es (shutdown ?w1)) = sockets w"
      by (simp_all add: shutdown_def)
    then show ?thesis
      unfolding r w1 using sk em by simp
  qed
  from a b c d e f g show ?thesis by blast
qed

theorem shutdown_abandons_witness:
  "sent (sockets (run example_config
      [Data ''a'' [0x80], Signal, Data ''b'' [1, 0x41], Timer 0] example_world) ''a'') = [] \<and>
   gLIFO (run example_config
      [Data ''a'' [0x80], Signal, Data ''b'' [1, 0x41], Timer 0] example_world) = [] \<and>
   CheckStackEmpty ''a'' \<in> set (timers (step example_config (Data ''a'' [0x80]) example_world))"
proof -
  have h: "fresh_connection example_world ''a'' \<and> \<not> gKillMe example_world \<and>
     gLIFO example_world = [] \<and> (0x80 :: byte) AND 0x80 \<noteq> 0 \<and> lead_length 0x80 = 0"
    by (simp add: example_world_fresh pop_byte)
  from shutdown_abandons [where cfg = example_config and w = example_world and u = "''a''"
      and b = "0x80" and es = "[Data ''b'' [1, 0x41], Timer 0]"] h
  show ?thesis by blast
qed

subsection \<open>The bound on the stack\<close>

lemma checkStackEmpty_move: "stack_move cfg w (checkStackEmpty me s w)"
  by (simp add: stack_move_def checkStackEmpty_def client_end_def Let_def)

lemma checkStackFull_move: "stack_move cfg w (checkStackFull cfg me p s w)"
  by (simp add: stack_move_def checkStackFull_def client_end_def)

lemma checkStackEmpty_sockets:
  "length (gLIFO w) \<le> length (gLIFO (checkStackEmpty me s w)) \<Longrightarrow>
   sockets (checkStackEmpty me s w) = sockets w"
proof (cases "gKillMe w \<or> exitLoop s \<or> gLIFO w = []")
  case True
  then show ?thesis by (auto simp: checkStackEmpty_def)
next
  case False
  then have "length (gLIFO (checkStackEmpty me s w)) < length (gLIFO w)"
    by (simp add: checkStackEmpty_def client_end_def Let_def)
  moreover assume "length (gLIFO w) \<le> length (gLIFO (checkStackEmpty me s w))"
  ultimately show ?thesis by simp
qed

lemma stack_move_refl: "stack_move cfg w w"
  by (simp add: stack_move_def)

lemma checkStackFull_sockets:
  "maxStackSize cfg \<le> length (gLIFO w) \<Longrightarrow> sockets (checkStackFull cfg me p s w) = sockets w"
  by (simp add: checkStackFull_def)

lemma onData_move:
  "onData cfg me buffer s w = Inr (s', w') \<Longrightarrow> stack_move cfg w w'"
  by (auto simp: onData_def Let_def checkStackEmpty_move checkStackFull_move stack_move_refl
      split: option.splits if_splits)

lemma onData_sockets:
  "onData cfg me buffer s w = Inr (s', w') \<Longrightarrow> maxStackSize cfg \<le> length (gLIFO w) \<Longrightarrow>
   length (gLIFO w) \<le> length (gLIFO w') \<Longrightarrow> sockets w' = sockets w"
  by (auto simp: onData_def Let_def checkStackEmpty_sockets checkStackFull_sockets
      split: option.splits if_splits)

lemma sent_socket_end_Nil: "sent (socket_end [] sk) = sent sk"
  by (simp add: socket_end_def)

lemma getConnectionsCallback_frame:
  "getConnectionsCallback cfg me connections now pick s w = Inr (s', w') \<Longrightarrow>
   gLIFO w' = gLIFO w \<and> (\<forall>u. u \<noteq> me \<longrightarrow> sent (sockets w' u) = sent (sockets w u))"
  by (auto simp: getConnectionsCallback_def client_end_def sent_socket_end_Nil
      split: if_splits sum.splits prod.splits option.splits)

lemma fire_move: "stack_move cfg w (fire cfg t w)"
  by (auto simp: fire_def checkStackEmpty_move checkStackFull_move stack_move_refl
      split: waiter.splits option.splits)

lemma fire_sockets:
  "maxStackSize cfg \<le> length (gLIFO w) \<Longrightarrow> length (gLIFO w) \<le> length (gLIFO (fire cfg t w)) \<Longrightarrow>
   sockets (fire cfg t w) = sockets w"
  by (auto simp: fire_def checkStackEmpty_sockets checkStackFull_sockets
      split: waiter.splits option.splits)

lemma checkStackEmpty_frame:
  "gKillMe (checkStackEmpty me s w) = gKillMe w \<and>
   sessions (checkStackEmpty me s w) = sessions w \<and>
   set (timers w) \<subseteq> set (timers (checkStackEmpty me s w))"
  by (auto simp: checkStackEmpty_def client_end_def Let_def)

lemma checkStackFull_frame:
  "gKillMe (checkStackFull cfg me p s w) = gKillMe w \<and>
   sessions (checkStackFull cfg me p s w) = sessions w \<and>
   set (timers w) \<subseteq> set (timers (checkStackFull cfg me p s w))"
  by (auto simp: checkStackFull_def client_end_def)

lemma checkStackEmpty_timers:
  "x \<in> set (timers w) \<Longrightarrow> x \<in> set (timers (checkStackEmpty me s w))"
  using checkStackEmpty_frame [of me s w] by blast

lemma checkStackFull_timers:
  "x \<in> set (timers w) \<Longrightarrow> x \<in> set (timers (checkStackFull cfg me p s w))"
  using checkStackFull_frame [of cfg me p s w] by blast

lemma fire_frame:
  "gKillMe (fire cfg t w) = gKillMe w \<and> sessions (fire cfg t w) = sessions w \<and>
   set (timers w) \<subseteq> set (timers (fire cfg t w))"
  by (simp add: fire_def checkStackEmpty_frame checkStackFull_frame
      split: waiter.splits option.splits)

lemma exitLoop_accumulate: "exitLoop (accumulate buffer s) = exitLoop s"
  by (simp add: accumulate_def Let_def)

lemma onData_frame:
  "onData cfg me buffer s w = Inr (s', w') \<Longrightarrow>
   gKillMe w' = gKillMe w \<and> sessions w' = sessions w \<and> set (timers w) \<subseteq> set (timers w') \<and>
   exitLoop s' = exitLoop s"
  by (auto simp: onData_def Let_def checkStackEmpty_frame checkStackFull_frame
      exitLoop_accumulate checkStackEmpty_timers checkStackFull_timers
      split: option.splits if_splits)

lemma getConnectionsCallback_frame2:
  "getConnectionsCallback cfg me connections now pick s w = Inr (s', w') \<Longrightarrow>
   gKillMe w' = gKillMe w \<and> sessions w' = sessions w \<and> timers w' = timers w"
  by (auto simp: getConnectionsCallback_def client_end_def
      split: if_splits sum.splits prod.splits option.splits)

lemma deliver_move: "stack_move cfg w (deliver cfg me buffer w)"
proof (cases "sessions w me")
  case None
  then show ?thesis by (simp add: deliver_def stack_move_refl)
next
  case (Some s)
  show ?thesis
  proof (cases "onData cfg me buffer s w")
    case (Inl err)
    with Some show ?thesis by (simp add: deliver_def stack_move_def shutdown_def)
  next
    case (Inr sw)
    obtain s' w' where sw: "sw = (s', w')" by (cases sw)
    from onData_move Inr sw have "stack_move cfg w w'" by blast
    with Some Inr sw show ?thesis by (simp add: deliver_def stack_move_def store_def)
  qed
qed

lemma deliver_sockets:
  assumes full: "maxStackSize cfg \<le> length (gLIFO w)"
    and keep: "length (gLIFO w) \<le> length (gLIFO (deliver cfg me buffer w))"
  shows "sockets (deliver cfg me buffer w) = sockets w"
proof (cases "sessions w me")
  case None
  then show ?thesis by (simp add: deliver_def)
next
  case (Some s)
  show ?thesis
  proof (cases "onData cfg me buffer s w")
    case (Inl err)
    with Some show ?thesis by (simp add: deliver_def shutdown_def)
  next
    case (Inr sw)
    obtain s' w' where sw: "sw = (s', w')" by (cases sw)
    from keep Some Inr sw have "length (gLIFO w) \<le> length (gLIFO w')"
      by (simp add: deliver_def store_def)
    with onData_sockets Inr sw full have "sockets w' = sockets w" by blast
    with Some Inr sw show ?thesis by (simp add: deliver_def store_def)
  qed
qed

lemma deliver_frame:
  "(gKillMe w \<longrightarrow> gKillMe (deliver cfg me buffer w)) \<and>
   (sessions w u = Some s \<and> \<not> exitLoop s \<longrightarrow>
      (\<exists>s'. sessions (deliver cfg me buffer w) u = Some s' \<and> \<not> exitLoop s'))"
proof (cases "sessions w me")
  case None
  then show ?thesis by (simp add: deliver_def)
next
  case (Some s1)
  show ?thesis
  proof (cases "onData cfg me buffer s1 w")
    case (Inl err)
    with Some show ?thesis by (simp add: deliver_def shutdown_def)
  next
    case (Inr sw)
    obtain s' w' where sw: "sw = (s', w')" by (cases sw)
    from onData_frame Inr sw
    have "gKillMe w' = gKillMe w" "sessions w' = sessions w" "exitLoop s' = exitLoop s1"
      by blast+
    with Some Inr sw show ?thesis by (auto simp: deliver_def store_def)
  qed
qed

lemma deliver_timers:
  assumes x: "x \<in> set (timers w)"
  shows "x \<in> set (timers (deliver cfg me buffer w))"
proof (cases "sessions w me")
  case None
  with x show ?thesis by (simp add: deliver_def)
next
  case (Some s1)
  show ?thesis
  proof (cases "onData cfg me buffer s1 w")
    case (Inl err)
    with Some x show ?thesis by (simp add: deliver_def shutdown_def)
  next
    case (Inr sw)
    obtain s' w' where sw: "sw = (s', w')" by (cases sw)
    from onData_frame Inr sw have "set (timers w) \<subseteq> set (timers w')" by blast
    with Some Inr sw x show ?thesis by (auto simp: deliver_def store_def)
  qed
qed

text \<open>
  Decoding changes the decoder of the connection and nothing else; what it hands on goes
  to the data handler.
\<close>

lemma receive_cases:
  obtains D where "receive cfg me data w = w\<lparr>decoders := D\<rparr>"
  | D buffer where "receive cfg me data w = deliver cfg me buffer (w\<lparr>decoders := D\<rparr>)"
proof (cases "decoders w me")
  case None
  then have "receive cfg me data w = deliver cfg me data (w\<lparr>decoders := decoders w\<rparr>)"
    by (simp add: receive_def)
  then show ?thesis by (rule that(2))
next
  case (Some d)
  show ?thesis
  proof (cases "fst (decoder_write d data) = []")
    case True
    with Some have "receive cfg me data w =
        w\<lparr>decoders := (decoders w)(me \<mapsto> snd (decoder_write d data))\<rparr>"
      by (simp add: receive_def Let_def)
    then show ?thesis by (rule that(1))
  next
    case False
    with Some have "receive cfg me data w = deliver cfg me (fst (decoder_write d data))
        (w\<lparr>decoders := (decoders w)(me \<mapsto> snd (decoder_write d data))\<rparr>)"
      by (simp add: receive_def Let_def)
    then show ?thesis by (rule that(2))
  qed
qed

lemma flush_cases:
  obtains D where "flush cfg me w = w\<lparr>decoders := D\<rparr>"
  | D buffer where "flush cfg me w = deliver cfg me buffer (w\<lparr>decoders := D\<rparr>)"
proof (cases "decoders w me")
  case None
  then have "flush cfg me w = w\<lparr>decoders := decoders w\<rparr>"
    by (simp add: flush_def)
  then show ?thesis by (rule that(1))
next
  case (Some d)
  show ?thesis
  proof (cases "decoder_end d = []")
    case True
    with Some have "flush cfg me w = w\<lparr>decoders := (decoders w)(me \<mapsto> ([], 0))\<rparr>"
      by (simp add: flush_def Let_def)
    then show ?thesis by (rule that(1))
  next
    case False
    with Some have "flush cfg me w = deliver cfg me (decoder_end d)
        (w\<lparr>decoders := (decoders w)(me \<mapsto> ([], 0))\<rparr>)"
      by (simp add: flush_def Let_def)
    then show ?thesis by (rule that(2))
  qed
qed

lemma receive_move: "stack_move cfg w (receive cfg me data w)"
proof (rule receive_cases [of cfg me data w])
  fix D assume "receive cfg me data w = w\<lparr>decoders := D\<rparr>"
  then show ?thesis by (simp add: stack_move_def)
next
  fix D buffer assume r: "receive cfg me data w = deliver cfg me buffer (w\<lparr>decoders := D\<rparr>)"
  from deliver_move [of cfg "w\<lparr>decoders := D\<rparr>" me buffer]
  show ?thesis unfolding r by (simp add: stack_move_def)
qed

lemma flush_move: "stack_move cfg w (flush cfg me w)"
proof (rule flush_cases [of cfg me w])
  fix D assume "flush cfg me w = w\<lparr>decoders := D\<rparr>"
  then show ?thesis by (simp add: stack_move_def)
next
  fix D buffer assume r: "flush cfg me w = deliver cfg me buffer (w\<lparr>decoders := D\<rparr>)"
  from deliver_move [of cfg "w\<lparr>decoders := D\<rparr>" me buffer]
  show ?thesis unfolding r by (simp add: stack_move_def)
qed

lemma close_frame:
  "gLIFO (close me w) = gLIFO w" "sockets (close me w) = sockets w"
  "timers (close me w) = timers w" "gKillMe (close me w) = gKillMe w"
  "u \<noteq> me \<Longrightarrow> sessions (close me w) u = sessions w u"
  by (simp_all add: close_def onClose_def store_def split: option.splits)

lemma close_move: "stack_move cfg w w' \<Longrightarrow> stack_move cfg w (close me w')"
  by (simp add: stack_move_def close_frame)

lemma receive_sockets:
  assumes full: "maxStackSize cfg \<le> length (gLIFO w)"
    and keep: "\<not> length (gLIFO (receive cfg me data w)) < length (gLIFO w)"
  shows "sockets (receive cfg me data w) = sockets w"
proof (rule receive_cases [of cfg me data w])
  fix D assume "receive cfg me data w = w\<lparr>decoders := D\<rparr>"
  then show ?thesis by simp
next
  fix D buffer assume r: "receive cfg me data w = deliver cfg me buffer (w\<lparr>decoders := D\<rparr>)"
  from deliver_sockets [of cfg "w\<lparr>decoders := D\<rparr>" me buffer] full keep
  show ?thesis unfolding r by simp
qed

lemma flush_sockets:
  assumes full: "maxStackSize cfg \<le> length (gLIFO w)"
    and keep: "\<not> length (gLIFO (flush cfg me w)) < length (gLIFO w)"
  shows "sockets (flush cfg me w) = sockets w"
proof (rule flush_cases [of cfg me w])
  fix D assume "flush cfg me w = w\<lparr>decoders := D\<rparr>"
  then show ?thesis by simp
next
  fix D buffer assume r: "flush cfg me w = deliver cfg me buffer (w\<lparr>decoders := D\<rparr>)"
  from deliver_sockets [of cfg "w\<lparr>decoders := D\<rparr>" me buffer] full keep
  show ?thesis unfolding r by simp
qed

lemma receive_frame:
  "(gKillMe w \<longrightarrow> gKillMe (receive cfg me data w)) \<and>
   (sessions w u = Some s \<and> \<not> exitLoop s \<longrightarrow>
      (\<exists>s'. sessions (receive cfg me data w) u = Some s' \<and> \<not> exitLoop s'))"
proof (rule receive_cases [of cfg me data w])
  fix D assume "receive cfg me data w = w\<lparr>decoders := D\<rparr>"
  then show ?thesis by simp
next
  fix D buffer assume r: "receive cfg me data w = deliver cfg me buffer (w\<lparr>decoders := D\<rparr>)"
  from deliver_frame [of "w\<lparr>decoders := D\<rparr>" cfg me buffer u s]
  show ?thesis unfolding r by simp
qed

lemma flush_frame:
  "(gKillMe w \<longrightarrow> gKillMe (flush cfg me w)) \<and>
   (sessions w u = Some s \<and> \<not> exitLoop s \<longrightarrow>
      (\<exists>s'. sessions (flush cfg me w) u = Some s' \<and> \<not> exitLoop s'))"
proof (rule flush_cases [of cfg me w])
  fix D assume "flush cfg me w = w\<lparr>decoders := D\<rparr>"
  then show ?thesis by simp
next
  fix D buffer assume r: "flush cfg me w = deliver cfg me buffer (w\<lparr>decoders := D\<rparr>)"
  from deliver_frame [of "w\<lparr>decoders := D\<rparr>" cfg me buffer u s]
  show ?thesis unfolding r by simp
qed

lemma receive_timers:
  assumes x: "x \<in> set (timers w)"
  shows "x \<in> set (timers (receive cfg me data w))"
proof (rule receive_cases [of cfg me data w])
  fix D assume "receive cfg me data w = w\<lparr>decoders := D\<rparr>"
  with x show ?thesis by simp
next
  fix D buffer assume r: "receive cfg me data w = deliver cfg me buffer (w\<lparr>decoders := D\<rparr>)"
  from deliver_timers [of x "w\<lparr>decoders := D\<rparr>" cfg me buffer] x
  show ?thesis unfolding r by simp
qed

lemma flush_timers:
  assumes x: "x \<in> set (timers w)"
  shows "x \<in> set (timers (flush cfg me w))"
proof (rule flush_cases [of cfg me w])
  fix D assume "flush cfg me w = w\<lparr>decoders := D\<rparr>"
  with x show ?thesis by simp
next
  fix D buffer assume r: "flush cfg me w = deliver cfg me buffer (w\<lparr>decoders := D\<rparr>)"
  from deliver_timers [of x "w\<lparr>decoders := D\<rparr>" cfg me buffer] x
  show ?thesis unfolding r by simp
qed

lemma step_move: "stack_move cfg w (step cfg e w)"
proof (cases e)
  case (Connection me now connections now' pick)
  show ?thesis
  proof (cases "listening w")
    case False
    with Connection show ?thesis by (simp add: stack_move_def)
  next
    case True
    let ?w1 = "connectionListener me now w"
    have g1: "gLIFO ?w1 = gLIFO w" by (simp add: connectionListener_def)
    obtain s where s: "sessions ?w1 me = Some s" by (simp add: connectionListener_def)
    show ?thesis
    proof (cases "getConnectionsCallback cfg me connections now' pick s ?w1")
      case (Inl err)
      with Connection True s g1 show ?thesis by (simp add: stack_move_def shutdown_def)
    next
      case (Inr sw)
      obtain s' w' where sw: "sw = (s', w')" by (cases sw)
      from getConnectionsCallback_frame Inr sw have "gLIFO w' = gLIFO ?w1" by blast
      with Connection True s g1 Inr sw show ?thesis by (simp add: stack_move_def store_def)
    qed
  qed
next
  case (Data me data)
  with receive_move [of cfg w me data] show ?thesis by simp
next
  case (End me)
  with close_move [OF flush_move, of cfg w me me] show ?thesis by simp
next
  case (Timeout me)
  with close_move [OF stack_move_refl, of cfg w me] show ?thesis by simp
next
  case (Error me)
  with close_move [OF stack_move_refl, of cfg w me] show ?thesis by simp
next
  case (Timer i)
  show ?thesis
  proof (cases "i < length (timers w)")
    case True
    from fire_move [of cfg "w\<lparr>timers := take i (timers w) @ drop (Suc i) (timers w)\<rparr>" "timers w ! i"]
    show ?thesis using Timer True by (simp add: stack_move_def)
  next
    case False
    with Timer show ?thesis by (simp add: stack_move_def)
  qed
next
  case Signal
  then show ?thesis by (simp add: stack_move_def shutdown_def)
qed

lemma step_bounded:
  "length (gLIFO w) \<le> maxStackSize cfg \<Longrightarrow> length (gLIFO (step cfg e w)) \<le> maxStackSize cfg"
  using step_move [of cfg w e] by (auto simp: stack_move_def)

lemma run_bounded:
  "length (gLIFO w) \<le> maxStackSize cfg \<Longrightarrow> length (gLIFO (run cfg es w)) \<le> maxStackSize cfg"
  by (induction es arbitrary: w) (simp_all add: step_bounded)

lemma step_full_stack:
  "maxStackSize cfg \<le> length (gLIFO w) \<Longrightarrow>
   \<not> length (gLIFO (step cfg e w)) < length (gLIFO w) \<Longrightarrow> gLIFO (step cfg e w) = gLIFO w"
  using step_move [of cfg w e] by (auto simp: stack_move_def)

lemma step_full_sent:
  assumes full: "maxStackSize cfg \<le> length (gLIFO w)"
    and keep: "\<not> length (gLIFO (step cfg e w)) < length (gLIFO w)"
    and nc: "\<not> connects u e"
  shows "sent (sockets (step cfg e w) u) = sent (sockets w u)"
proof (cases e)
  case (Connection me now connections now' pick)
  with nc have ne: "u \<noteq> me" by auto
  show ?thesis
  proof (cases "listening w")
    case False
    with Connection show ?thesis by simp
  next
    case True
    let ?w1 = "connectionListener me now w"
    have k1: "sockets ?w1 u = sockets w u" using ne by (simp add: connectionListener_def)
    obtain s where s: "sessions ?w1 me = Some s" by (simp add: connectionListener_def)
    show ?thesis
    proof (cases "getConnectionsCallback cfg me connections now' pick s ?w1")
      case (Inl err)
      with Connection True s k1 show ?thesis by (simp add: shutdown_def)
    next
      case (Inr sw)
      obtain s' w' where sw: "sw = (s', w')" by (cases sw)
      from getConnectionsCallback_frame Inr sw ne
      have "sent (sockets w' u) = sent (sockets ?w1 u)" by blast
      with Connection True s k1 Inr sw show ?thesis by (simp add: store_def)
    qed
  qed
next
  case (Data me data)
  with receive_sockets [of cfg w me data] full keep show ?thesis by simp
next
  case (End me)
  with flush_sockets [of cfg w me] full keep show ?thesis by (simp add: close_frame)
next
  case (Timeout me)
  then show ?thesis by (simp add: close_frame)
next
  case (Error me)
  then show ?thesis by (simp add: close_frame)
next
  case (Timer i)
  show ?thesis
  proof (cases "i < length (timers w)")
    case True
    let ?w1 = "w\<lparr>timers := take i (timers w) @ drop (Suc i) (timers w)\<rparr>"
    from keep Timer True have "length (gLIFO ?w1) \<le> length (gLIFO (fire cfg (timers w ! i) ?w1))"
      by simp
    with fire_sockets [of cfg ?w1 "timers w ! i"] full
    have "sockets (fire cfg (timers w ! i) ?w1) = sockets w" by simp
    with Timer True show ?thesis by simp
  next
    case False
    with Timer show ?thesis by simp
  qed
next
  case Signal
  then show ?thesis by (simp add: shutdown_def)
qed

lemma run_full:
  "maxStackSize cfg \<le> length (gLIFO w) \<Longrightarrow> \<not> pop_occurs cfg es w \<Longrightarrow>
   \<forall>e\<in>set es. \<not> connects u e \<Longrightarrow>
   gLIFO (run cfg es w) = gLIFO w \<and> sent (sockets (run cfg es w) u) = sent (sockets w u)"
proof (induction es arbitrary: w)
  case Nil
  then show ?case by simp
next
  case (Cons e es)
  from Cons.prems have keep: "\<not> length (gLIFO (step cfg e w)) < length (gLIFO w)"
    and np: "\<not> pop_occurs cfg es (step cfg e w)" and nc: "\<not> connects u e"
    and ncs: "\<forall>e\<in>set es. \<not> connects u e"
    by simp_all
  have g: "gLIFO (step cfg e w) = gLIFO w"
    using Cons.prems(1) keep by (rule step_full_stack)
  have k: "sent (sockets (step cfg e w) u) = sent (sockets w u)"
    using Cons.prems(1) keep nc by (rule step_full_sent)
  from Cons.prems(1) g have "maxStackSize cfg \<le> length (gLIFO (step cfg e w))" by simp
  from Cons.IH [OF this np ncs] g k show ?case by simp
qed

lemma step_frame:
  "(gKillMe w \<longrightarrow> gKillMe (step cfg e w)) \<and>
   (\<not> connects u e \<and> \<not> closes u e \<and> sessions w u = Some s \<and> \<not> exitLoop s \<longrightarrow>
      (\<exists>s'. sessions (step cfg e w) u = Some s' \<and> \<not> exitLoop s'))"
proof (cases e)
  case (Connection me now connections now' pick)
  show ?thesis
  proof (cases "listening w")
    case False
    with Connection show ?thesis by simp
  next
    case True
    let ?w1 = "connectionListener me now w"
    have k1: "gKillMe ?w1 = gKillMe w" "\<And>x. x \<noteq> me \<Longrightarrow> sessions ?w1 x = sessions w x"
      by (simp_all add: connectionListener_def)
    obtain s0 where s0: "sessions ?w1 me = Some s0" by (simp add: connectionListener_def)
    show ?thesis
    proof (cases "getConnectionsCallback cfg me connections now' pick s0 ?w1")
      case (Inl err)
      with Connection True s0 k1 show ?thesis by (auto simp: shutdown_def)
    next
      case (Inr sw)
      obtain s' w' where sw: "sw = (s', w')" by (cases sw)
      from getConnectionsCallback_frame2 Inr sw
      have "gKillMe w' = gKillMe ?w1" "sessions w' = sessions ?w1" by blast+
      with Connection True s0 k1 Inr sw show ?thesis by (auto simp: store_def)
    qed
  qed
next
  case (Data me data)
  with receive_frame [of w cfg me data u s] show ?thesis by simp
next
  case (End me)
  with flush_frame [of w cfg me u s] show ?thesis by (auto simp: close_frame)
next
  case (Timeout me)
  then show ?thesis by (auto simp: close_frame)
next
  case (Error me)
  then show ?thesis by (auto simp: close_frame)
next
  case (Timer i)
  then show ?thesis by (simp add: fire_frame)
next
  case Signal
  then show ?thesis by (simp add: shutdown_def)
qed

lemma run_gKillMe: "gKillMe w \<Longrightarrow> gKillMe (run cfg es w)"
proof (induction es arbitrary: w)
  case Nil
  then show ?case by simp
next
  case (Cons e es)
  from step_frame [of w cfg e] Cons.prems have "gKillMe (step cfg e w)" by blast
  then show ?case using Cons.IH by simp
qed

lemma step_timers:
  assumes full: "maxStackSize cfg \<le> length (gLIFO w)"
    and x: "CheckStackFull u p \<in> set (timers w)"
    and s: "sessions w u = Some s" "\<not> exitLoop s"
    and nk: "\<not> gKillMe w"
  shows "CheckStackFull u p \<in> set (timers (step cfg e w))"
proof (cases e)
  case (Connection me now connections now' pick)
  show ?thesis
  proof (cases "listening w")
    case False
    with Connection x show ?thesis by simp
  next
    case True
    let ?w1 = "connectionListener me now w"
    have k1: "timers ?w1 = timers w" by (simp add: connectionListener_def)
    obtain s0 where s0: "sessions ?w1 me = Some s0" by (simp add: connectionListener_def)
    show ?thesis
    proof (cases "getConnectionsCallback cfg me connections now' pick s0 ?w1")
      case (Inl err)
      with Connection True s0 k1 x show ?thesis by (simp add: shutdown_def)
    next
      case (Inr sw)
      obtain s' w' where sw: "sw = (s', w')" by (cases sw)
      from getConnectionsCallback_frame2 Inr sw have "timers w' = timers ?w1" by blast
      with Connection True s0 k1 Inr sw x show ?thesis by (simp add: store_def)
    qed
  qed
next
  case (Data me data)
  with receive_timers [OF x, of cfg me data] show ?thesis by simp
next
  case (End me)
  with flush_timers [OF x, of cfg me] show ?thesis by (simp add: close_frame)
next
  case (Timeout me)
  with x show ?thesis by (simp add: close_frame)
next
  case (Error me)
  with x show ?thesis by (simp add: close_frame)
next
  case (Timer i)
  show ?thesis
  proof (cases "i < length (timers w)")
    case False
    with Timer x show ?thesis by simp
  next
    case True
    let ?w1 = "w\<lparr>timers := take i (timers w) @ drop (Suc i) (timers w)\<rparr>"
    have st: "step cfg e w = fire cfg (timers w ! i) ?w1"
      using Timer True by simp
    have "timers w = take i (timers w) @ timers w ! i # drop (Suc i) (timers w)"
      using True by (rule id_take_nth_drop)
    then have "set (timers w) =
        set (take i (timers w) @ timers w ! i # drop (Suc i) (timers w))"
      by simp
    then have "set (timers w) = insert (timers w ! i) (set (timers ?w1))"
      by simp
    with x consider "timers w ! i = CheckStackFull u p" | "CheckStackFull u p \<in> set (timers ?w1)"
      by auto
    then show ?thesis
    proof cases
      case 1
      then have "fire cfg (timers w ! i) ?w1 = ?w1\<lparr>timers := timers ?w1 @ [CheckStackFull u p]\<rparr>"
        using s nk full by (simp add: fire_def checkStackFull_def)
      then show ?thesis unfolding st by simp
    next
      case 2
      with fire_frame [of cfg "timers w ! i" ?w1] show ?thesis unfolding st by blast
    qed
  qed
next
  case Signal
  with x show ?thesis by (simp add: shutdown_def)
qed

lemma run_pending:
  "maxStackSize cfg \<le> length (gLIFO w) \<Longrightarrow> \<not> pop_occurs cfg es w \<Longrightarrow>
   CheckStackFull u p \<in> set (timers w) \<Longrightarrow> sessions w u = Some s \<Longrightarrow> \<not> exitLoop s \<Longrightarrow>
   \<forall>e\<in>set es. \<not> connects u e \<and> \<not> closes u e \<Longrightarrow> \<not> gKillMe (run cfg es w) \<Longrightarrow>
   CheckStackFull u p \<in> set (timers (run cfg es w))"
proof (induction es arbitrary: w s)
  case Nil
  then show ?case by simp
next
  case (Cons e es)
  from Cons.prems have keep: "\<not> length (gLIFO (step cfg e w)) < length (gLIFO w)"
    and np: "\<not> pop_occurs cfg es (step cfg e w)"
    and nc: "\<not> connects u e" "\<not> closes u e"
    and ncs: "\<forall>e\<in>set es. \<not> connects u e \<and> \<not> closes u e"
    and nk: "\<not> gKillMe (run cfg es (step cfg e w))"
    by simp_all
  from nk run_gKillMe have nk1: "\<not> gKillMe (step cfg e w)" by blast
  with step_frame [of w cfg e] have nk0: "\<not> gKillMe w" by blast
  have g: "gLIFO (step cfg e w) = gLIFO w"
    using Cons.prems(1) keep by (rule step_full_stack)
  then have full: "maxStackSize cfg \<le> length (gLIFO (step cfg e w))"
    using Cons.prems(1) by simp
  have x: "CheckStackFull u p \<in> set (timers (step cfg e w))"
    using Cons.prems(1,3,4,5) nk0 by (rule step_timers)
  from step_frame [of w cfg e u s] nc Cons.prems(4,5)
  obtain s' where s': "sessions (step cfg e w) u = Some s'" "\<not> exitLoop s'" by blast
  from Cons.IH [OF full np x s' ncs nk] show ?case by simp
qed

lemma push_request_full:
  assumes fr: "fresh_connection w u" and nk: "\<not> gKillMe w"
    and full: "maxStackSize cfg \<le> length (gLIFO w)" and len: "length p \<le> 127"
    and asc: "ascii p"
  shows "\<exists>s'. \<not> exitLoop s' \<and> step cfg (Data u (word_of_nat (length p) # p)) w =
     w\<lparr>sessions := (sessions w)(u \<mapsto> s'), timers := timers w @ [CheckStackFull u p]\<rparr>"
proof -
  from fr obtain s r where s: "sessions w u = Some s" and r: "map_of (gClients w) u = Some r"
    and st: "state s = Start" "payloadList s = []" "\<not> exitLoop s" "\<not> disconnect r"
    and dec: "decoders w u = Some ([], 0)"
    by (auto simp: fresh_connection_def split: option.splits)
  have ar: "ascii (word_of_nat (length p) # p)"
    using asc len by (simp add: ascii_def header_ascii)
  let ?s' = "s\<lparr>state := Done, payloadLength := length p, payloadList := [p],
     payloadBytesRead := int (length p)\<rparr>"
  have "step cfg (Data u (word_of_nat (length p) # p)) w =
     w\<lparr>sessions := (sessions w)(u \<mapsto> ?s'), timers := timers w @ [CheckStackFull u p]\<rparr>"
    using s r st nk full len
    by (intro world.equality ext)
      (simp_all add: receive_ascii [OF dec ar] deliver_def onData_def accumulate_def
        checkStackFull_def byte0_and_def store_def Let_def header_high_clear header_low7)
  moreover have "\<not> exitLoop ?s'" using st by simp
  ultimately show ?thesis by blast
qed

lemma example_full_world_eval:
  "gLIFO example_full_world = [[0x41], [0x42]]"
  "timers example_full_world = [CheckStackFull ''c'' [0x43]]"
  "\<not> gKillMe example_full_world"
  "\<exists>s. sessions example_full_world ''c'' = Some s \<and> \<not> exitLoop s"
  "sent (sockets example_full_world ''c'') = []"
  by (simp_all add: example_full_world_def example_world_def example_config_def init_world_def
      push_events_def handler_defs)

text \<open>
  C2. From the initial state the stack never holds more than \<^verbatim>\<open>maxStackSize\<close> payloads,
  whatever events arrive. At capacity \<^verbatim>\<open>checkStackFull\<close> neither changes the stack nor
  writes to or ends the socket; unless the halt flag or \<^verbatim>\<open>exitLoop\<close> is set it re-arms its
  timer with the payload, and with room it stores the payload. At capacity, as long as no
  pop occurs, the stack stays as it is, no byte is sent to a waiting connection, and its
  push stays pending (while the server is not shut down and the connection not closed).
  After \<^verbatim>\<open>maxStackSize\<close> push requests on an empty stack, one more is left pending and
  unanswered (the requests here carry bytes below \<^verbatim>\<open>0x80\<close>, which reach the data handler as
  they were sent).
\<close>

theorem bounded_capacity:
  "length (gLIFO (run cfg es init_world)) \<le> maxStackSize cfg \<and>
   (maxStackSize cfg \<le> length (gLIFO w) \<longrightarrow>
      gLIFO (checkStackFull cfg me p s w) = gLIFO w \<and>
      sockets (checkStackFull cfg me p s w) = sockets w) \<and>
   (maxStackSize cfg \<le> length (gLIFO w) \<and> \<not> gKillMe w \<and> \<not> exitLoop s \<longrightarrow>
      checkStackFull cfg me p s w = w\<lparr>timers := timers w @ [CheckStackFull me p]\<rparr>) \<and>
   (length (gLIFO w) < maxStackSize cfg \<and> \<not> gKillMe w \<and> \<not> exitLoop s \<longrightarrow>
      gLIFO (checkStackFull cfg me p s w) = gLIFO w @ [p]) \<and>
   (maxStackSize cfg \<le> length (gLIFO w) \<and> \<not> pop_occurs cfg es w \<and>
    (\<forall>e\<in>set es. \<not> connects me e) \<longrightarrow>
      gLIFO (run cfg es w) = gLIFO w \<and>
      sent (sockets (run cfg es w) me) = sent (sockets w me)) \<and>
   (maxStackSize cfg \<le> length (gLIFO w) \<and> \<not> pop_occurs cfg es w \<and>
    CheckStackFull me p \<in> set (timers w) \<and> sessions w me = Some s \<and> \<not> exitLoop s \<and>
    (\<forall>e\<in>set es. \<not> connects me e \<and> \<not> closes me e) \<and> \<not> gKillMe (run cfg es w) \<longrightarrow>
      CheckStackFull me p \<in> set (timers (run cfg es w))) \<and>
   (gLIFO w = [] \<and> length ps = maxStackSize cfg \<and> distinct (map fst ps @ [me]) \<and>
    (\<forall>u\<in>set (map fst ps @ [me]). fresh_connection w u) \<and> \<not> gKillMe w \<and>
    (\<forall>q\<in>set (map snd ps @ [p]). length q \<le> 127 \<and> ascii q) \<longrightarrow>
      gLIFO (run cfg (push_events (ps @ [(me, p)])) w) = map snd ps \<and>
      CheckStackFull me p \<in> set (timers (run cfg (push_events (ps @ [(me, p)])) w)) \<and>
      sent (sockets (run cfg (push_events (ps @ [(me, p)])) w) me) = [] \<and>
      \<not> ended (sockets (run cfg (push_events (ps @ [(me, p)])) w) me))"
proof -
  have a: "length (gLIFO (run cfg es init_world)) \<le> maxStackSize cfg"
    by (rule run_bounded) (simp add: init_world_def)
  have b: "gLIFO (checkStackFull cfg me p s w) = gLIFO w \<and>
      sockets (checkStackFull cfg me p s w) = sockets w"
    if "maxStackSize cfg \<le> length (gLIFO w)"
    using that by (simp add: checkStackFull_def)
  have c: "checkStackFull cfg me p s w = w\<lparr>timers := timers w @ [CheckStackFull me p]\<rparr>"
    if "maxStackSize cfg \<le> length (gLIFO w)" "\<not> gKillMe w" "\<not> exitLoop s"
    using that by (simp add: checkStackFull_def)
  have d: "gLIFO (checkStackFull cfg me p s w) = gLIFO w @ [p]"
    if "length (gLIFO w) < maxStackSize cfg" "\<not> gKillMe w" "\<not> exitLoop s"
    using that by (simp add: checkStackFull_def client_end_def)
  have e: "gLIFO (run cfg es w) = gLIFO w \<and>
      sent (sockets (run cfg es w) me) = sent (sockets w me)"
    if "maxStackSize cfg \<le> length (gLIFO w)" "\<not> pop_occurs cfg es w"
      "\<forall>e\<in>set es. \<not> connects me e"
    using that by (rule run_full)
  have f: "CheckStackFull me p \<in> set (timers (run cfg es w))"
    if "maxStackSize cfg \<le> length (gLIFO w)" "\<not> pop_occurs cfg es w"
      "CheckStackFull me p \<in> set (timers w)" "sessions w me = Some s" "\<not> exitLoop s"
      "\<forall>e\<in>set es. \<not> connects me e \<and> \<not> closes me e" "\<not> gKillMe (run cfg es w)"
    using that by (rule run_pending)
  have g: "gLIFO (run cfg (push_events (ps @ [(me, p)])) w) = map snd ps \<and>
      CheckStackFull me p \<in> set (timers (run cfg (push_events (ps @ [(me, p)])) w)) \<and>
      sent (sockets (run cfg (push_events (ps @ [(me, p)])) w) me) = [] \<and>
      \<not> ended (sockets (run cfg (push_events (ps @ [(me, p)])) w) me)"
    if em: "gLIFO w = []" and k: "length ps = maxStackSize cfg"
      and di: "distinct (map fst ps @ [me])"
      and fr: "\<forall>u\<in>set (map fst ps @ [me]). fresh_connection w u" and nk: "\<not> gKillMe w"
      and le: "\<forall>q\<in>set (map snd ps @ [p]). length q \<le> 127 \<and> ascii q"
  proof -
    let ?w1 = "run cfg (push_events ps) w"
    have pu: "gLIFO ?w1 = gLIFO w @ map snd ps \<and> \<not> gKillMe ?w1 \<and>
       (\<forall>x. x \<notin> set (map fst ps) \<longrightarrow> fresh_connection ?w1 x = fresh_connection w x)"
      using di fr nk le em k by (intro pushes_complete) auto
    from di have "me \<notin> set (map fst ps)" by simp
    with pu fr have fm: "fresh_connection ?w1 me" by simp
    from pu em k have full: "maxStackSize cfg \<le> length (gLIFO ?w1)" by simp
    from le have "length p \<le> 127" "ascii p" by simp_all
    from push_request_full [OF fm _ full this] pu
    obtain s' where w2: "step cfg (Data me (word_of_nat (length p) # p)) ?w1 =
       ?w1\<lparr>sessions := (sessions ?w1)(me \<mapsto> s'), timers := timers ?w1 @ [CheckStackFull me p]\<rparr>"
        (is "_ = ?w2")
      by blast
    have r: "run cfg (push_events (ps @ [(me, p)])) w = ?w2"
      unfolding push_events_def map_append run_append
      by (simp only: list.map run.simps fst_conv snd_conv w2 [unfolded push_events_def])
    from fm have "sent (sockets ?w1 me) = [] \<and> \<not> ended (sockets ?w1 me)"
      by (auto simp: fresh_connection_def split: option.splits)
    then show ?thesis
      unfolding r using pu em by simp
  qed
  from a b c d e f g show ?thesis by blast
qed

theorem bounded_capacity_witness:
  "gLIFO (run example_config
      (push_events ([(''a'', [0x41]), (''b'', [0x42])] @ [(''c'', [0x43])])) example_world) =
     [[0x41], [0x42]] \<and>
   CheckStackFull ''c'' [0x43] \<in> set (timers (run example_config
      (push_events ([(''a'', [0x41]), (''b'', [0x42])] @ [(''c'', [0x43])])) example_world)) \<and>
   sent (sockets (run example_config
      (push_events ([(''a'', [0x41]), (''b'', [0x42])] @ [(''c'', [0x43])])) example_world) ''c'') = [] \<and>
   gLIFO (run example_config [Timer 0, Data ''c'' [0x44], Timer 1] example_full_world) =
     [[0x41], [0x42]] \<and>
   sent (sockets (run example_config [Timer 0, Data ''c'' [0x44], Timer 1] example_full_world) ''c'') = [] \<and>
   CheckStackFull ''c'' [0x43] \<in>
     set (timers (run example_config [Timer 0, Data ''c'' [0x44], Timer 1] example_full_world))"
proof -
  let ?ps = "[(''a'', [0x41]), (''b'', [0x42])] :: (uuid \<times> buffer) list"
  let ?es = "[Timer 0, Data ''c'' [0x44], Timer 1]"
  have h1: "gLIFO example_world = [] \<and> length ?ps = maxStackSize example_config \<and>
     distinct (map fst ?ps @ [''c'']) \<and>
     (\<forall>u\<in>set (map fst ?ps @ [''c'']). fresh_connection example_world u) \<and>
     \<not> gKillMe example_world \<and>
     (\<forall>q\<in>set (map snd ?ps @ [[0x43]]). length q \<le> 127 \<and> ascii q)"
    by (simp add: example_world_fresh example_config_def ascii_def)
  have full: "maxStackSize example_config \<le> length (gLIFO example_full_world)"
    by (simp add: example_full_world_eval example_config_def)
  have run_es: "gLIFO (run example_config ?es example_full_world) = [[0x41], [0x42]]"
    "\<not> gKillMe (run example_config ?es example_full_world)"
    "\<not> pop_occurs example_config ?es example_full_world"
    by (simp_all add: example_full_world_def example_world_def example_config_def init_world_def
        push_events_def handler_defs)
  obtain s where s: "sessions example_full_world ''c'' = Some s" "\<not> exitLoop s"
    using example_full_world_eval(4) by blast
  have h2: "maxStackSize example_config \<le> length (gLIFO example_full_world) \<and>
     \<not> pop_occurs example_config ?es example_full_world \<and>
     (\<forall>e\<in>set ?es. \<not> connects ''c'' e)"
    using full run_es by simp
  have h3: "maxStackSize example_config \<le> length (gLIFO example_full_world) \<and>
     \<not> pop_occurs example_config ?es example_full_world \<and>
     CheckStackFull ''c'' [0x43] \<in> set (timers example_full_world) \<and>
     sessions example_full_world ''c'' = Some s \<and> \<not> exitLoop s \<and>
     (\<forall>e\<in>set ?es. \<not> connects ''c'' e \<and> \<not> closes ''c'' e) \<and>
     \<not> gKillMe (run example_config ?es example_full_world)"
    using full run_es s by (simp add: example_full_world_eval)
  from bounded_capacity [of example_config ?es example_world "''c''" "[0x43]" s ?ps] h1
  have a: "gLIFO (run example_config (push_events (?ps @ [(''c'', [0x43])])) example_world) =
       map snd ?ps \<and>
     CheckStackFull ''c'' [0x43] \<in> set (timers (run example_config
       (push_events (?ps @ [(''c'', [0x43])])) example_world)) \<and>
     sent (sockets (run example_config (push_events (?ps @ [(''c'', [0x43])])) example_world) ''c'') = []"
    by blast
  from bounded_capacity [of example_config ?es example_full_world "''c''" "[0x43]" s ?ps] h2 h3
  have b: "gLIFO (run example_config ?es example_full_world) = gLIFO example_full_world \<and>
     sent (sockets (run example_config ?es example_full_world) ''c'') =
       sent (sockets example_full_world ''c'') \<and>
     CheckStackFull ''c'' [0x43] \<in> set (timers (run example_config ?es example_full_world))"
    by blast
  from a b show ?thesis
    by (simp add: example_full_world_eval)
qed

subsection \<open>The response to a pop\<close>

lemma checkStackEmpty_answer:
  "length (gLIFO (checkStackEmpty me s w)) < length (gLIFO w) \<Longrightarrow>
   sockets (checkStackEmpty me s w) =
     (sockets w)(me := socket_end (sendBuffer (last (gLIFO w))) (sockets w me))"
  by (auto simp: checkStackEmpty_def client_end_def Let_def split: if_splits)

lemma checkStackFull_no_pop:
  "\<not> length (gLIFO (checkStackFull cfg me p s w)) < length (gLIFO w)"
  by (simp add: checkStackFull_def client_end_def)

lemma onData_answer:
  "onData cfg me buffer s w = Inr (s', w') \<Longrightarrow> length (gLIFO w') < length (gLIFO w) \<Longrightarrow>
   sockets w' = (sockets w)(me := socket_end (sendBuffer (last (gLIFO w))) (sockets w me))"
  by (auto simp: onData_def Let_def checkStackEmpty_answer checkStackFull_no_pop
      split: option.splits if_splits)

lemma deliver_answer:
  assumes pop: "length (gLIFO (deliver cfg me buffer w)) < length (gLIFO w)"
  shows "sockets (deliver cfg me buffer w) =
     (sockets w)(me := socket_end (sendBuffer (last (gLIFO w))) (sockets w me))"
proof (cases "sessions w me")
  case None
  with pop show ?thesis by (simp add: deliver_def)
next
  case (Some s)
  show ?thesis
  proof (cases "onData cfg me buffer s w")
    case (Inl err)
    with Some pop show ?thesis by (simp add: deliver_def shutdown_def)
  next
    case (Inr sw)
    obtain s' w' where sw: "sw = (s', w')" by (cases sw)
    from pop Some Inr sw have "length (gLIFO w') < length (gLIFO w)"
      by (simp add: deliver_def store_def)
    with onData_answer Inr sw
    have "sockets w' = (sockets w)(me := socket_end (sendBuffer (last (gLIFO w))) (sockets w me))"
      by blast
    with Some Inr sw show ?thesis by (simp add: deliver_def store_def)
  qed
qed

lemma receive_answer:
  assumes pop: "length (gLIFO (receive cfg me data w)) < length (gLIFO w)"
  shows "sockets (receive cfg me data w) =
     (sockets w)(me := socket_end (sendBuffer (last (gLIFO w))) (sockets w me))"
proof (rule receive_cases [of cfg me data w])
  fix D assume "receive cfg me data w = w\<lparr>decoders := D\<rparr>"
  with pop show ?thesis by simp
next
  fix D buffer assume r: "receive cfg me data w = deliver cfg me buffer (w\<lparr>decoders := D\<rparr>)"
  from deliver_answer [of cfg me buffer "w\<lparr>decoders := D\<rparr>"] pop
  show ?thesis unfolding r by simp
qed

lemma flush_answer:
  assumes pop: "length (gLIFO (flush cfg me w)) < length (gLIFO w)"
  shows "sockets (flush cfg me w) =
     (sockets w)(me := socket_end (sendBuffer (last (gLIFO w))) (sockets w me))"
proof (rule flush_cases [of cfg me w])
  fix D assume "flush cfg me w = w\<lparr>decoders := D\<rparr>"
  with pop show ?thesis by simp
next
  fix D buffer assume r: "flush cfg me w = deliver cfg me buffer (w\<lparr>decoders := D\<rparr>)"
  from deliver_answer [of cfg me buffer "w\<lparr>decoders := D\<rparr>"] pop
  show ?thesis unfolding r by simp
qed

lemma fire_answer:
  "length (gLIFO (fire cfg t w)) < length (gLIFO w) \<Longrightarrow>
   \<exists>u. sockets (fire cfg t w) =
     (sockets w)(u := socket_end (sendBuffer (last (gLIFO w))) (sockets w u))"
  by (auto simp: fire_def checkStackEmpty_answer checkStackFull_no_pop
      split: waiter.splits option.splits)

lemma connection_stack: "gLIFO (step cfg (Connection me now connections now' pick) w) = gLIFO w"
proof (cases "listening w")
  case False
  then show ?thesis by simp
next
  case True
  let ?w1 = "connectionListener me now w"
  have g1: "gLIFO ?w1 = gLIFO w" by (simp add: connectionListener_def)
  obtain s where s: "sessions ?w1 me = Some s" by (simp add: connectionListener_def)
  show ?thesis
  proof (cases "getConnectionsCallback cfg me connections now' pick s ?w1")
    case (Inl err)
    with True s g1 show ?thesis by (simp add: shutdown_def)
  next
    case (Inr sw)
    obtain s' w' where sw: "sw = (s', w')" by (cases sw)
    from getConnectionsCallback_frame Inr sw have "gLIFO w' = gLIFO ?w1" by blast
    with True s g1 Inr sw show ?thesis by (simp add: store_def)
  qed
qed

lemma step_answer:
  assumes pop: "length (gLIFO (step cfg e w)) < length (gLIFO w)"
  shows "\<exists>u. sockets (step cfg e w) =
     (sockets w)(u := socket_end (sendBuffer (last (gLIFO w))) (sockets w u))"
proof (cases e)
  case (Connection me now connections now' pick)
  with pop connection_stack [of cfg me now connections now' pick w] show ?thesis by simp
next
  case (Data me data)
  with receive_answer [of cfg me data w] pop show ?thesis by auto
next
  case (End me)
  with flush_answer [of cfg me w] pop show ?thesis by (auto simp: close_frame)
next
  case (Timeout me)
  with pop show ?thesis by (simp add: close_frame)
next
  case (Error me)
  with pop show ?thesis by (simp add: close_frame)
next
  case (Timer i)
  show ?thesis
  proof (cases "i < length (timers w)")
    case True
    let ?w1 = "w\<lparr>timers := take i (timers w) @ drop (Suc i) (timers w)\<rparr>"
    from fire_answer [of cfg "timers w ! i" ?w1] pop Timer True
    show ?thesis by simp
  next
    case False
    with Timer pop show ?thesis by simp
  qed
next
  case Signal
  with pop show ?thesis by (simp add: shutdown_def)
qed

lemma reject_busy:
  assumes "listening w" "maxConnections cfg < connections"
    and "disconnectOldClient cfg now' pick (gClients (connectionListener me now w)) = Inr (False, x)"
  shows "sockets (step cfg (Connection me now connections now' pick) w) me =
     \<lparr>sent = [0xFF], ended = True\<rparr>"
  using assms
  by (simp add: getConnectionsCallback_def store_def client_end_def socket_end_def
      connectionListener_def)

lemma example_full_world_fresh:
  "fresh_connection example_full_world ''d''"
  by (simp add: example_full_world_def example_world_def example_config_def init_world_def
      push_events_def fresh_connection_def handler_defs)

text \<open>
  C10. Whenever an event takes a payload off the stack, one socket is written to and
  ended with the response to the pop, and no other socket changes; on a socket not yet
  ended the bytes sent are the header, the length of the payload masked with \<^verbatim>\<open>0x7F\<close>,
  followed by the payload. The header has its high bit clear, so it is not \<^verbatim>\<open>0xFF\<close>. A pop
  request on a fresh connection (a single byte with the high bit set that the decoder
  hands on at once) that finds a payload is answered with exactly these bytes, and a
  connection that is refused is sent exactly the byte \<^verbatim>\<open>0xFF\<close>.
\<close>

theorem pop_response_header:
  "(length (gLIFO (step cfg e w)) < length (gLIFO w) \<longrightarrow>
      (\<exists>u. sockets (step cfg e w) =
         (sockets w)(u := socket_end (sendBuffer (last (gLIFO w))) (sockets w u)))) \<and>
   (\<not> ended sk \<longrightarrow>
      sent (socket_end (sendBuffer p) sk) = sent sk @ word_of_nat (length p AND 0x7F) # p) \<and>
   (word_of_nat (length p AND 0x7F) :: byte) AND 0x80 = 0 \<and>
   (word_of_nat (length p AND 0x7F) :: byte) \<noteq> 0xFF \<and>
   hd (sendBuffer p) \<noteq> 0xFF \<and>
   (fresh_connection w v \<and> \<not> gKillMe w \<and> gLIFO w \<noteq> [] \<and>
    b AND 0x80 \<noteq> 0 \<and> lead_length b = 0 \<longrightarrow>
      sent (sockets (step cfg (Data v [b]) w) v) =
        word_of_nat (length (last (gLIFO w)) AND 0x7F) # last (gLIFO w) \<and>
      gLIFO (step cfg (Data v [b]) w) = butlast (gLIFO w)) \<and>
   (listening w \<and> maxConnections cfg < connections \<and>
    disconnectOldClient cfg now' pick (gClients (connectionListener me now w)) = Inr (False, x) \<longrightarrow>
      sent (sockets (step cfg (Connection me now connections now' pick) w) me) = [0xFF])"
proof -
  have a: "\<exists>u. sockets (step cfg e w) =
      (sockets w)(u := socket_end (sendBuffer (last (gLIFO w))) (sockets w u))"
    if "length (gLIFO (step cfg e w)) < length (gLIFO w)"
    using that by (rule step_answer)
  have b: "sent (socket_end (sendBuffer p) sk) = sent sk @ word_of_nat (length p AND 0x7F) # p"
    if "\<not> ended sk"
    using that by (simp add: socket_end_def sendBuffer_def)
  have c: "(word_of_nat (length p AND 0x7F) :: byte) AND 0x80 = 0"
    by (rule header_not_busy)
  have d: "(word_of_nat (length p AND 0x7F) :: byte) \<noteq> 0xFF"
  proof
    assume "(word_of_nat (length p AND 0x7F) :: byte) = 0xFF"
    with c show False by simp
  qed
  have d': "hd (sendBuffer p) \<noteq> 0xFF"
    using d by (simp add: sendBuffer_def)
  have e: "sent (sockets (step cfg (Data v [b]) w) v) =
        word_of_nat (length (last (gLIFO w)) AND 0x7F) # last (gLIFO w) \<and>
      gLIFO (step cfg (Data v [b]) w) = butlast (gLIFO w)"
    if fr: "fresh_connection w v" and nk: "\<not> gKillMe w" and st: "gLIFO w \<noteq> []"
      and cb: "b AND 0x80 \<noteq> 0" "lead_length b = 0"
  proof -
    from pop_request [OF fr nk st cb, of cfg] obtain s' where
      w1: "step cfg (Data v [b]) w =
        w\<lparr>gLIFO := butlast (gLIFO w), sessions := (sessions w)(v \<mapsto> s'),
          sockets := (sockets w)(v := \<lparr>sent = sendBuffer (last (gLIFO w)), ended = True\<rparr>)\<rparr>"
      by blast
    show ?thesis unfolding w1 by (simp add: sendBuffer_def)
  qed
  have f: "sent (sockets (step cfg (Connection me now connections now' pick) w) me) = [0xFF]"
    if "listening w" "maxConnections cfg < connections"
      "disconnectOldClient cfg now' pick (gClients (connectionListener me now w)) = Inr (False, x)"
    using reject_busy [OF that] by simp
  from a b c d d' e f show ?thesis by blast
qed

theorem pop_response_header_witness:
  "(\<exists>u. sockets (step example_config (Data ''d'' [0x80]) example_full_world) =
      (sockets example_full_world)
        (u := socket_end (sendBuffer [0x42]) (sockets example_full_world u))) \<and>
   sent (sockets (step example_config (Data ''d'' [0x80]) example_full_world) ''d'') =
     [0x01, 0x42] \<and>
   sent (sockets (step example_config (Connection ''e'' 4 5 4 0) example_world) ''e'') = [0xFF]"
proof -
  let ?e = "Data ''d'' [0x80]"
  have h1: "fresh_connection example_full_world ''d'' \<and> \<not> gKillMe example_full_world \<and>
     gLIFO example_full_world \<noteq> [] \<and> (0x80 :: byte) AND 0x80 \<noteq> 0 \<and> lead_length 0x80 = 0"
    by (simp add: example_full_world_fresh example_full_world_eval pop_byte)
  have h2: "listening example_world \<and> maxConnections example_config < 5 \<and>
     disconnectOldClient example_config 4 0
       (gClients (connectionListener ''e'' 4 example_world)) = Inr (False, [])"
    by (simp add: example_world_def example_config_def init_world_def handler_defs)
  note t = pop_response_header [of example_config ?e example_full_world _ _ "''d''" "0x80"]
  from t h1
  have s: "sent (sockets (step example_config ?e example_full_world) ''d'') = [0x01, 0x42]"
    and g: "gLIFO (step example_config ?e example_full_world) = [[0x41]]"
    by (simp_all add: example_full_world_eval and_7F_mod)
  from g have "length (gLIFO (step example_config ?e example_full_world)) <
      length (gLIFO example_full_world)"
    by (simp add: example_full_world_eval)
  with t have u: "\<exists>u. sockets (step example_config ?e example_full_world) =
      (sockets example_full_world)
        (u := socket_end (sendBuffer [0x42]) (sockets example_full_world u))"
    by (simp add: example_full_world_eval)
  from pop_response_header [where w = example_world and cfg = example_config
      and connections = 5 and now' = 4 and pick = 0 and me = "''e''" and now = 4 and x = "[]"] h2
  have r: "sent (sockets (step example_config (Connection ''e'' 4 5 4 0) example_world) ''e'') =
      [0xFF]"
    by blast
  from u s r show ?thesis by blast
qed

subsection \<open>Admission\<close>

lemma oldest_records_nonempty: "g \<noteq> [] \<Longrightarrow> oldest_records g \<noteq> []"
proof -
  assume g: "g \<noteq> []"
  let ?T = "set (map (\<lambda>kr. timestamp (snd kr)) g)"
  from g have "Min ?T \<in> ?T" by (intro Min_in) simp_all
  then obtain kr where "kr \<in> set g" "timestamp (snd kr) = Min ?T" by auto
  then show ?thesis
    unfolding oldest_records_def filter_empty_conv by blast
qed

lemma oldest_records_least:
  assumes "x \<in> set (oldest_records g)"
  shows "x \<in> set g \<and> (\<forall>kr\<in>set g. timestamp (snd x) \<le> timestamp (snd kr))"
proof -
  let ?T = "set (map (\<lambda>kr. timestamp (snd kr)) g)"
  from assms have x: "x \<in> set g" "timestamp (snd x) = Min ?T"
    by (simp_all add: oldest_records_def)
  have "Min ?T \<le> timestamp (snd kr)" if "kr \<in> set g" for kr
    using that by (intro Min_le) simp_all
  with x show ?thesis by simp
qed

lemma disconnectOldClient_candidate:
  assumes "g \<noteq> []"
  shows "\<exists>k r. (k, r) \<in> set g \<and> (\<forall>kr\<in>set g. timestamp r \<le> timestamp (snd kr)) \<and>
     disconnectOldClient cfg now pick g =
       Inr (if now - timestamp r > 1000 * int (staleConnectionPeriodSeconds cfg)
            then (True, k) else (False, []))"
proof -
  from oldest_records_nonempty [OF assms] obtain first others
    where o: "oldest_records g = first # others"
    by (cases "oldest_records g") auto
  let ?c = "(first # others) ! (pick mod length (first # others))"
  have "?c \<in> set (first # others)" by (intro nth_mem) simp
  with o have "?c \<in> set (oldest_records g)" by simp
  from oldest_records_least [OF this]
  have "(fst ?c, snd ?c) \<in> set g" "\<forall>kr\<in>set g. timestamp (snd ?c) \<le> timestamp (snd kr)"
    by simp_all
  moreover have "disconnectOldClient cfg now pick g =
       Inr (if now - timestamp (snd ?c) > 1000 * int (staleConnectionPeriodSeconds cfg)
            then (True, fst ?c) else (False, []))"
    by (simp add: disconnectOldClient_def o Let_def)
  ultimately show ?thesis by blast
qed

text \<open>
  When the registry holds a record strictly older than the new connection's, the
  candidate is another connection, one with the least timestamp. If it is stale it is
  marked and its socket ended, and the new connection is left as it was; otherwise the
  new connection is sent the byte \<^verbatim>\<open>0xFF\<close>, its socket is ended, its state becomes
  \<^verbatim>\<open>'disconnect'\<close>, and every later delivery on it is ignored.
\<close>

lemma admission_with_older_record:
  assumes over: "maxConnections cfg < connections"
    and reg: "gClients w = old @ [(me, r)]" and new: "me \<notin> fst ` set old"
    and keys: "distinct (map fst old)"
    and older: "(k, ro) \<in> set old" "timestamp ro < timestamp r"
    and wf: "\<forall>kr\<in>set old. client (snd kr) = fst kr"
    and sock: "sent (sockets w me) = []" "\<not> ended (sockets w me)"
  shows "\<exists>ou orec.
     (ou, orec) \<in> set old \<and> ou \<noteq> me \<and>
     (\<forall>kr\<in>set (gClients w). timestamp orec \<le> timestamp (snd kr)) \<and>
     (if now - timestamp orec > 1000 * int (staleConnectionPeriodSeconds cfg)
      then getConnectionsCallback cfg me connections now pick s w =
             Inr (s, w\<lparr>gClients := AList.update ou (orec\<lparr>disconnect := True\<rparr>) (gClients w),
                      sockets := (sockets w)(ou := socket_end [] (sockets w ou))\<rparr>)
      else getConnectionsCallback cfg me connections now pick s w =
             Inr (s\<lparr>state := Disconnect\<rparr>,
                  w\<lparr>sockets := (sockets w)(me := \<lparr>sent = [0xFF], ended = True\<rparr>)\<rparr>) \<and>
           (\<forall>buffer. onData cfg me buffer (s\<lparr>state := Disconnect\<rparr>)
                (w\<lparr>sockets := (sockets w)(me := \<lparr>sent = [0xFF], ended = True\<rparr>)\<rparr>) =
              Inr (s\<lparr>state := Disconnect\<rparr>,
                   w\<lparr>sockets := (sockets w)(me := \<lparr>sent = [0xFF], ended = True\<rparr>)\<rparr>)))"
proof -
  have "gClients w \<noteq> []" using reg by simp
  from disconnectOldClient_candidate [OF this, of cfg now pick]
  obtain ou orec where mem: "(ou, orec) \<in> set (gClients w)"
    and mn: "\<forall>kr\<in>set (gClients w). timestamp orec \<le> timestamp (snd kr)"
    and dc: "disconnectOldClient cfg now pick (gClients w) =
       Inr (if now - timestamp orec > 1000 * int (staleConnectionPeriodSeconds cfg)
            then (True, ou) else (False, []))"
    by blast
  have "(k, ro) \<in> set (gClients w)" using older(1) reg by simp
  from bspec [OF mn this] older(2) have "timestamp orec < timestamp r" by simp
  then have "(ou, orec) \<noteq> (me, r)" by auto
  with mem reg have inold: "(ou, orec) \<in> set old" by auto
  then have "fst (ou, orec) \<in> fst ` set old" by (rule imageI)
  with new have ne: "ou \<noteq> me" by auto
  from bspec [OF wf inold] have cl: "client orec = ou" by simp
  have "distinct (map fst (gClients w))"
    using keys new unfolding reg by simp
  with mem have lk: "map_of (gClients w) ou = Some orec"
    by simp
  have me: "map_of (gClients w) me = Some r"
    using new unfolding reg by (simp add: map_of_append map_add_Some_iff map_of_eq_None_iff)
  let ?stale = "now - timestamp orec > 1000 * int (staleConnectionPeriodSeconds cfg)"
  let ?rej = "w\<lparr>sockets := (sockets w)(me := \<lparr>sent = [0xFF], ended = True\<rparr>)\<rparr>"
  show ?thesis
  proof (cases ?stale)
    case False
    have cb: "getConnectionsCallback cfg me connections now pick s w =
        Inr (s\<lparr>state := Disconnect\<rparr>, ?rej)"
      using over False sock
      by (simp add: getConnectionsCallback_def dc client_end_def socket_end_def)
    have np: "onData cfg me buffer (s\<lparr>state := Disconnect\<rparr>) ?rej =
        Inr (s\<lparr>state := Disconnect\<rparr>, ?rej)" for buffer
      using me by (simp add: onData_def accumulate_def Let_def)
    from inold ne mn False cb np show ?thesis by auto
  next
    case True
    have cb: "getConnectionsCallback cfg me connections now pick s w =
        Inr (s, w\<lparr>gClients := AList.update ou (orec\<lparr>disconnect := True\<rparr>) (gClients w),
                 sockets := (sockets w)(ou := socket_end [] (sockets w ou))\<rparr>)"
      using over True lk cl
      by (simp add: getConnectionsCallback_def dc client_end_def)
    from inold ne mn True cb show ?thesis by auto
  qed
qed

text \<open>
  C5. One connection is admitted (the limit is one) and its \<^verbatim>\<open>'end'\<close> handler removes its
  record while its socket still counts. A second connection is accepted a millisecond
  later and the count is two. The oldest record is the second connection's own, a
  millisecond old at the check and so older than the stale period of zero seconds. The
  second connection is ended without the byte \<^verbatim>\<open>0xFF\<close> and marked for disconnection, and
  the push request it then sends is ignored: it is neither refused as the busy branch
  refuses, nor admitted.
\<close>

theorem newcomer_ended_without_busy_byte:
  "sockets (run overflow_config
      [Connection ''a'' 0 1 0 0, End ''a'', Connection ''b'' 1 2 2 pick] init_world) ''b'' =
     \<lparr>sent = [], ended = True\<rparr> \<and>
   map_of (gClients (run overflow_config
      [Connection ''a'' 0 1 0 0, End ''a'', Connection ''b'' 1 2 2 pick] init_world)) ''b'' =
     Some \<lparr>timestamp = 1, client = ''b'', counter = 2, disconnect = True\<rparr> \<and>
   gLIFO (run overflow_config
      [Connection ''a'' 0 1 0 0, End ''a'', Connection ''b'' 1 2 2 pick, Data ''b'' [0x01, 0x41]]
      init_world) = [] \<and>
   sent (sockets (run overflow_config
      [Connection ''a'' 0 1 0 0, End ''a'', Connection ''b'' 1 2 2 pick, Data ''b'' [0x01, 0x41]]
      init_world) ''b'') = []"
  by (simp add: overflow_config_def init_world_def handler_defs AList.delete_eq)

text \<open>
  C6. In the same run, the candidate \<^verbatim>\<open>disconnectOldClient\<close> returns at the check for the
  second connection is the second connection: its record is in the registry when the keys
  are sorted, and nothing leaves it out.
\<close>

theorem newcomer_is_candidate:
  "disconnectOldClient overflow_config 2 pick
     (gClients (connectionListener ''b'' 1
        (run overflow_config [Connection ''a'' 0 1 0 0, End ''a''] init_world))) =
     Inr (True, ''b'')"
  by (simp add: overflow_config_def init_world_def handler_defs AList.delete_eq)

end
